theory Spec2Isabelle
  imports Complex_Main "HOL-Library.Word"
begin

section \<open>pcurses: the Package record (src/package.cpp)\<close>

text \<open>
  A shallow embedding of \<^verbatim>\<open>Package\<close>: the constructor that copies the fields of a libalpm
  package handle, the string helpers \<^verbatim>\<open>trimstr\<close>, \<^verbatim>\<open>list2str\<close>, \<^verbatim>\<open>deplist2str\<close> and
  \<^verbatim>\<open>size2str\<close>, the accessors and the two dispatchers \<^verbatim>\<open>getattr\<close> and \<^verbatim>\<open>getoffattr\<close>.

  Conventions. A \<^verbatim>\<open>const char *\<close> that the code tests for \<^verbatim>\<open>NULL\<close>, and the result of
  \<^verbatim>\<open>std::ctime\<close>, is a \<open>string option\<close> (\<open>None\<close> is the null pointer); a \<^verbatim>\<open>std::string\<close> is
  a \<open>string\<close>. \<^verbatim>\<open>off_t\<close> and
  \<^verbatim>\<open>time_t\<close> are 64-bit words and \<^verbatim>\<open>int\<close> is a 32-bit word, read as two's complement by
  \<open>sint\<close>. A function that can throw returns a sum, the exception on the left. The private
  members \<^verbatim>\<open>_name\<close>, \<^verbatim>\<open>_version\<close>, ... are the record fields \<open>m_name\<close>, \<open>m_version\<close>, ...
  (an identifier cannot start with an underscore).
\<close>

type_synonym off_t = "64 word"
type_synonym time_t = "64 word"
type_synonym c_int = "32 word"

subsection \<open>std::string operations used by the code\<close>

text \<open>\<^verbatim>\<open>str.find_first_not_of(set)\<close>: the first index whose character is not in \<open>cs\<close>;
  \<open>None\<close> is \<^verbatim>\<open>string::npos\<close>.\<close>

fun find_first_not_of :: "string \<Rightarrow> string \<Rightarrow> nat option" where
  "find_first_not_of [] cs = None"
| "find_first_not_of (c # str) cs =
     (if c \<in> set cs then map_option Suc (find_first_not_of str cs) else Some 0)"

text \<open>\<^verbatim>\<open>str.find_last_not_of(set)\<close>: the last index whose character is not in \<open>cs\<close>.\<close>

fun find_last_not_of :: "string \<Rightarrow> string \<Rightarrow> nat option" where
  "find_last_not_of [] cs = None"
| "find_last_not_of (c # str) cs =
     (case find_last_not_of str cs of
        Some i \<Rightarrow> Some (Suc i)
      | None \<Rightarrow> (if c \<in> set cs then None else Some 0))"

text \<open>\<^verbatim>\<open>str.substr(pos, n)\<close> for \<open>pos \<le> length str\<close> (the only way the code calls it).\<close>

definition substr :: "string \<Rightarrow> nat \<Rightarrow> nat \<Rightarrow> string" where
  "substr str pos n = take n (drop pos str)"

subsection \<open>trimstr\<close>

definition whitespace :: string where
  "whitespace = [CHR '' '', CHR 0x09, CHR 0x0A]"

definition trimstr :: "string option \<Rightarrow> string" where
  "trimstr c =
     (case c of
        None \<Rightarrow> ''''
      | Some str \<Rightarrow>
          (case (find_first_not_of str whitespace, find_last_not_of str whitespace) of
             (Some startpos, Some endpos) \<Rightarrow> substr str startpos (endpos - startpos + 1)
           | _ \<Rightarrow> ''''))"

subsection \<open>list2str and deplist2str\<close>

text \<open>
  An \<^verbatim>\<open>alpm_list_t *\<close> is the list of its nodes' data, \<^verbatim>\<open>NULL\<close> the empty list. Both loops
  walk the nodes with \<^verbatim>\<open>alpm_list_next\<close>, carrying the result string \<^verbatim>\<open>res\<close>.
  In \<^verbatim>\<open>list2str\<close> the test \<^verbatim>\<open>i != l\<close> holds at every node but the head; the flag \<open>head\<close>
  tells whether the loop is at the head.
\<close>

fun list2str_loop :: "bool \<Rightarrow> string \<Rightarrow> string list \<Rightarrow> string \<Rightarrow> string" where
  "list2str_loop head res [] delim = res"
| "list2str_loop head res (s # rest) delim =
     list2str_loop False ((if \<not> head then res @ delim else res) @ s) rest delim"

definition list2str :: "string list \<Rightarrow> string \<Rightarrow> string" where
  "list2str l delim = list2str_loop True '''' l delim"

text \<open>
  \<^verbatim>\<open>alpm_dep_compute_string\<close> belongs to libalpm; it is the parameter \<open>dep_string\<close>, over
  an arbitrary type \<open>'d\<close> of dependency entries. The delimiter is appended when the node
  has a successor (\<^verbatim>\<open>deps->next != NULL\<close>).
\<close>

fun deplist2str_loop :: "('d \<Rightarrow> string) \<Rightarrow> string \<Rightarrow> 'd list \<Rightarrow> string \<Rightarrow> string" where
  "deplist2str_loop dep_string res [] delim = res"
| "deplist2str_loop dep_string res (depend # rest) delim =
     deplist2str_loop dep_string
       ((res @ dep_string depend) @ (if rest \<noteq> [] then delim else '''')) rest delim"

definition deplist2str :: "('d \<Rightarrow> string) \<Rightarrow> 'd list \<Rightarrow> string \<Rightarrow> string" where
  "deplist2str dep_string l delim = deplist2str_loop dep_string '''' l delim"

subsection \<open>size2str\<close>

text \<open>
  A \<^verbatim>\<open>float\<close> is modelled by the rational number it denotes. \<^verbatim>\<open>float fsize = size\<close>
  converts the integer to IEEE 754 binary32, which keeps 24 significant bits and rounds to
  the nearest representable value, ties to the even significand: a magnitude \<open>a\<close> of
  \<open>bit_length a\<close> bits is rounded to a multiple of \<open>2 ^ (bit_length a - 24)\<close>. No 64-bit
  integer is out of the range of binary32.
\<close>

fun bit_length :: "nat \<Rightarrow> nat" where
  "bit_length n = (if n = 0 then 0 else Suc (bit_length (n div 2)))"

declare bit_length.simps [simp del]

definition round_nearest_even :: "nat \<Rightarrow> nat \<Rightarrow> nat" where
  "round_nearest_even e a =
     (let q = a div 2 ^ e;
          r = a mod 2 ^ e
      in (if 2 * r > 2 ^ e \<or> (2 * r = 2 ^ e \<and> odd q) then q + 1 else q) * 2 ^ e)"

definition binary32_of_nat :: "nat \<Rightarrow> nat" where
  "binary32_of_nat a = round_nearest_even (bit_length a - 24) a"

definition to_float :: "int \<Rightarrow> rat" where
  "to_float n = of_int (sgn n * int (binary32_of_nat (nat \<bar>n\<bar>)))"

definition units :: "string list" where
  "units = [''B'', ''KB'', ''MB'', ''GB'', ''TB'']"

definition unitssize :: nat where
  "unitssize = length units"

text \<open>
  The \<^verbatim>\<open>while\<close> loop. Dividing a binary32 value above 1024 by 1024 only lowers its
  exponent, so the quotient is exact.
\<close>

function size2str_loop :: "rat \<Rightarrow> nat \<Rightarrow> rat \<times> nat" where
  "size2str_loop fsize currentunit =
     (if fsize > 1024 \<and> currentunit < unitssize - 1
      then size2str_loop (fsize / 1024) (currentunit + 1)
      else (fsize, currentunit))"
  by pat_completeness auto
termination
  by (relation "measure (\<lambda>(fsize, currentunit). unitssize - 1 - currentunit)") auto

declare size2str_loop.simps [simp del]

text \<open>
  \<^verbatim>\<open>ss << std::fixed << std::setprecision(2) << fsize\<close>: the decimal expansion of the
  value with two digits after the point, correctly rounded (ties to the even digit, as
  the C library prints an exactly representable tie), with a minus sign for a negative value.
\<close>

definition digit_char :: "nat \<Rightarrow> char" where
  "digit_char d = ''0123456789'' ! d"

fun show_nat :: "nat \<Rightarrow> string" where
  "show_nat n = (if n < 10 then [digit_char n] else show_nat (n div 10) @ [digit_char (n mod 10)])"

declare show_nat.simps [simp del]

definition round_half_even :: "rat \<Rightarrow> int" where
  "round_half_even x =
     (let fl = \<lfloor>x\<rfloor>; fr = x - of_int fl
      in if fr > 1 / 2 \<or> (fr = 1 / 2 \<and> odd fl) then fl + 1 else fl)"

definition fixed2 :: "rat \<Rightarrow> string" where
  "fixed2 x =
     (let n = nat (round_half_even (\<bar>x\<bar> * 100))
      in (if x < 0 then ''-'' else []) @ show_nat (n div 100) @ ''.'' @
         [digit_char (n mod 100 div 10), digit_char (n mod 10)])"

definition size2str :: "off_t \<Rightarrow> string" where
  "size2str size' =
     (let fsize = to_float (sint size');
          (fsize', currentunit) = size2str_loop fsize 0
      in fixed2 fsize' @ '' '' @ units ! currentunit)"

subsection \<open>The libalpm side\<close>

text \<open>
  What a call can throw: the exception of the code, with its message, and the
  \<^verbatim>\<open>std::logic_error\<close> with which the C++ library refuses to build a \<^verbatim>\<open>std::string\<close> from
  a null pointer.
\<close>

datatype cxx_exception = PcursesException string | std_logic_error

text \<open>
  Modelled from the spec: \<^verbatim>\<open>alpm_pkgreason_t\<close>, declared in libalpm's header, which is not
  part of the sources. The spec speaks of the recorded reason "dependency" and of "any other
  recorded reason"; \<open>ALPM_PKG_REASON_OTHER\<close> is any value that is neither of the two named.
\<close>

datatype alpm_pkgreason_t =
    ALPM_PKG_REASON_EXPLICIT
  | ALPM_PKG_REASON_DEPEND
  | ALPM_PKG_REASON_OTHER int

text \<open>
  Modelled from the spec: the package handle \<^verbatim>\<open>alpm_pkg_t\<close>, given by what libalpm's
  accessors return for it; each field is named after its accessor. \<open>alpm_pkg_get_db_name\<close> is
  \<^verbatim>\<open>alpm_db_get_name(alpm_pkg_get_db(pkg))\<close>, and \<open>alpm_pkg_compute_requiredby\<close>,
  \<open>alpm_pkg_compute_optionalfor\<close> are the lists those queries build. \<open>'d\<close> is the type of
  the entries of the dependency lists (\<^verbatim>\<open>alpm_depend_t\<close>). The version is a plain string:
  the code assigns the version of the local package to a \<^verbatim>\<open>std::string\<close> with no test for
  \<^verbatim>\<open>NULL\<close>, relying on the library, for which every package has a version. The entries of
  the string lists are strings, not null pointers, for the same reason.
\<close>

record 'd alpm_pkg_t =
  alpm_pkg_get_name :: "string option"
  alpm_pkg_get_url :: "string option"
  alpm_pkg_get_packager :: "string option"
  alpm_pkg_get_desc :: "string option"
  alpm_pkg_get_version :: string
  alpm_pkg_get_db_name :: "string option"
  alpm_pkg_get_builddate :: time_t
  alpm_pkg_get_arch :: "string option"
  alpm_pkg_get_size :: off_t
  alpm_pkg_get_isize :: off_t
  alpm_pkg_get_licenses :: "string list"
  alpm_pkg_get_groups :: "string list"
  alpm_pkg_get_optdepends :: "'d list"
  alpm_pkg_get_conflicts :: "'d list"
  alpm_pkg_get_provides :: "'d list"
  alpm_pkg_get_replaces :: "'d list"
  alpm_pkg_get_depends :: "'d list"
  alpm_pkg_get_base64_sig :: "string option"
  alpm_pkg_get_reason :: alpm_pkgreason_t
  alpm_pkg_compute_requiredby :: "string list"
  alpm_pkg_compute_optionalfor :: "string list"

text \<open>
  Modelled from the spec: a database handle \<^verbatim>\<open>alpm_db_t\<close> "supporting lookup-by-name to
  obtain a local installed package handle". The handle is given by that lookup, from the name
  passed (possibly null) to the package found, \<open>None\<close> when the library returns \<^verbatim>\<open>NULL\<close>.
\<close>

type_synonym 'd alpm_db_t = "string option \<Rightarrow> 'd alpm_pkg_t option"

definition alpm_db_get_pkg :: "'d alpm_db_t \<Rightarrow> string option \<Rightarrow> 'd alpm_pkg_t option" where
  "alpm_db_get_pkg db name = db name"

subsection \<open>The Package class\<close>

text \<open>
  Modelled from the spec: the enumerations of \<^verbatim>\<open>package.h\<close>, which is not part of the
  sources. The named constructors are the enumerators that \<^verbatim>\<open>package.cpp\<close> uses; an object
  of a C++ enumeration type can also hold an integer that is none of its enumerators, which
  is the last constructor of each type. \<^verbatim>\<open>OperationEnum\<close> has no enumerator named in
  \<^verbatim>\<open>package.cpp\<close> and is the integer an object of the type holds.
\<close>

datatype AttributeEnum =
    A_NAME | A_VERSION | A_URL | A_REPO | A_PACKAGER | A_BUILDDATE | A_INSTALLSTATE
  | A_UPDATESTATE | A_DESC | A_ARCH | A_LICENSES | A_GROUPS | A_DEPENDS | A_OPTDEPENDS
  | A_CONFLICTS | A_PROVIDES | A_REPLACES | A_REQUIREDBY | A_OPTIONALFOR | A_SIGNATURE
  | A_SIZE | A_ISIZE | A_NONE
  | A_OTHER int

datatype InstallReasonEnum =
    IRE_NOTINSTALLED | IRE_EXPLICIT | IRE_ASDEPS
  | IRE_OTHER int

datatype UpdateStateEnum =
    USE_NOTINSTALLED | USE_UPDATEAVAILABLE | USE_UPTODATE
  | USE_OTHER int

type_synonym OperationEnum = int

record Package =
  m_name :: string
  m_url :: string
  m_packager :: string
  m_desc :: string
  m_version :: string
  m_dbname :: string
  m_builddate :: time_t
  m_arch :: string
  m_size :: off_t
  m_installsize :: off_t
  m_sizestr :: string
  m_installsizestr :: string
  m_licenses :: string
  m_groups :: string
  m_optdepends :: string
  m_conflicts :: string
  m_provides :: string
  m_replaces :: string
  m_depends :: string
  m_signature :: string
  m_updatestate :: UpdateStateEnum
  m_localversion :: string
  m_requiredby :: string
  m_optionalfor :: string
  m_reason :: InstallReasonEnum
  m_colindex :: c_int
  op :: OperationEnum

text \<open>
  The constructor runs on the storage \<open>this\<close> of the new object. Before its body runs, every
  \<^verbatim>\<open>std::string\<close> member is default-constructed, that is empty; the body assigns all of
  them but \<^verbatim>\<open>_localversion\<close>, \<^verbatim>\<open>_requiredby\<close> and \<^verbatim>\<open>_optionalfor\<close>, which it assigns only
  when the package is installed. \<^verbatim>\<open>_colindex\<close> and \<^verbatim>\<open>op\<close> are never assigned and keep what
  the storage holds.
\<close>

definition default_strings :: "Package \<Rightarrow> Package" where
  "default_strings this =
     this\<lparr>m_localversion := '''', m_requiredby := '''', m_optionalfor := ''''\<rparr>"

text \<open>
  \<^verbatim>\<open>alpm_pkg_vercmp\<close> and \<^verbatim>\<open>alpm_dep_compute_string\<close> belong to libalpm and are
  parameters.
\<close>

definition Package_ctor ::
  "(string \<Rightarrow> string \<Rightarrow> int) \<Rightarrow> ('d \<Rightarrow> string) \<Rightarrow>
   'd alpm_pkg_t \<Rightarrow> 'd alpm_db_t \<Rightarrow> Package \<Rightarrow> Package" where
  "Package_ctor alpm_pkg_vercmp alpm_dep_compute_string pkg localdb this =
     (let localpkg = alpm_db_get_pkg localdb (alpm_pkg_get_name pkg);
          this1 = (default_strings this)
            \<lparr>m_name := trimstr (alpm_pkg_get_name pkg),
             m_url := trimstr (alpm_pkg_get_url pkg),
             m_packager := trimstr (alpm_pkg_get_packager pkg),
             m_desc := trimstr (alpm_pkg_get_desc pkg),
             m_version := trimstr (Some (alpm_pkg_get_version pkg)),
             m_dbname := trimstr (alpm_pkg_get_db_name pkg),
             m_builddate := alpm_pkg_get_builddate pkg,
             m_arch := trimstr (alpm_pkg_get_arch pkg),
             m_size := alpm_pkg_get_size pkg,
             m_installsize := alpm_pkg_get_isize pkg,
             m_sizestr := size2str (alpm_pkg_get_size pkg),
             m_installsizestr := size2str (alpm_pkg_get_isize pkg),
             m_licenses := list2str (alpm_pkg_get_licenses pkg) '' '',
             m_groups := list2str (alpm_pkg_get_groups pkg) '' '',
             m_optdepends := deplist2str alpm_dep_compute_string (alpm_pkg_get_optdepends pkg)
                               (CHR 0x0A # ''            ''),
             m_conflicts := deplist2str alpm_dep_compute_string (alpm_pkg_get_conflicts pkg) '' '',
             m_provides := deplist2str alpm_dep_compute_string (alpm_pkg_get_provides pkg) '' '',
             m_replaces := deplist2str alpm_dep_compute_string (alpm_pkg_get_replaces pkg) '' '',
             m_depends := deplist2str alpm_dep_compute_string (alpm_pkg_get_depends pkg) '' '',
             m_signature := (if alpm_pkg_get_base64_sig pkg \<noteq> None then ''Yes'' else ''None'')\<rparr>;
          this2 =
            (case localpkg of
               None \<Rightarrow> this1\<lparr>m_updatestate := USE_NOTINSTALLED\<rparr>
             | Some lp \<Rightarrow>
                 (let localversion = alpm_pkg_get_version lp
                  in this1
                       \<lparr>m_localversion := localversion,
                        m_updatestate :=
                          (if alpm_pkg_vercmp (m_version this1) localversion > 0
                           then USE_UPDATEAVAILABLE else USE_UPTODATE),
                        m_requiredby := list2str (alpm_pkg_compute_requiredby lp) '' '',
                        m_optionalfor := list2str (alpm_pkg_compute_optionalfor lp) '' ''\<rparr>))
      in this2\<lparr>m_reason :=
           (case localpkg of
              None \<Rightarrow> IRE_NOTINSTALLED
            | Some lp \<Rightarrow>
                (if alpm_pkg_get_reason lp = ALPM_PKG_REASON_DEPEND then IRE_ASDEPS
                 else IRE_EXPLICIT))\<rparr>)"

subsection \<open>Accessors\<close>

definition getname :: "Package \<Rightarrow> string" where "getname this = m_name this"
definition getdesc :: "Package \<Rightarrow> string" where "getdesc this = m_desc this"
definition getrepo :: "Package \<Rightarrow> string" where "getrepo this = m_dbname this"
definition getpackager :: "Package \<Rightarrow> string" where "getpackager this = m_packager this"
definition geturl :: "Package \<Rightarrow> string" where "geturl this = m_url this"
definition getarch :: "Package \<Rightarrow> string" where "getarch this = m_arch this"
definition getlicenses :: "Package \<Rightarrow> string" where "getlicenses this = m_licenses this"
definition getgroups :: "Package \<Rightarrow> string" where "getgroups this = m_groups this"
definition getdepends :: "Package \<Rightarrow> string" where "getdepends this = m_depends this"
definition getoptdepends :: "Package \<Rightarrow> string" where "getoptdepends this = m_optdepends this"
definition getconflicts :: "Package \<Rightarrow> string" where "getconflicts this = m_conflicts this"
definition getprovides :: "Package \<Rightarrow> string" where "getprovides this = m_provides this"
definition getreplaces :: "Package \<Rightarrow> string" where "getreplaces this = m_replaces this"
definition getrequiredby :: "Package \<Rightarrow> string" where "getrequiredby this = m_requiredby this"
definition getoptionalfor :: "Package \<Rightarrow> string" where "getoptionalfor this = m_optionalfor this"
definition getsignature :: "Package \<Rightarrow> string" where "getsignature this = m_signature this"
definition getsize :: "Package \<Rightarrow> string" where "getsize this = m_sizestr this"
definition getisize :: "Package \<Rightarrow> string" where "getisize this = m_installsizestr this"

definition getversion :: "Package \<Rightarrow> string" where
  "getversion this =
     (if m_updatestate this = USE_UPDATEAVAILABLE
      then m_version this @ '' (local: '' @ m_localversion this @ '')''
      else m_version this)"

definition getreason :: "Package \<Rightarrow> cxx_exception + string" where
  "getreason this =
     (case m_reason this of
        IRE_NOTINSTALLED \<Rightarrow> Inr ''not installed''
      | IRE_EXPLICIT \<Rightarrow> Inr ''explicit''
      | IRE_ASDEPS \<Rightarrow> Inr ''as dependency''
      | IRE_OTHER v \<Rightarrow> Inl (PcursesException ''no package install reason.''))"

definition getupdatestate :: "Package \<Rightarrow> cxx_exception + string" where
  "getupdatestate this =
     (case m_updatestate this of
        USE_NOTINSTALLED \<Rightarrow> Inr ''not installed''
      | USE_UPDATEAVAILABLE \<Rightarrow> Inr ''update available''
      | USE_UPTODATE \<Rightarrow> Inr ''up to date''
      | USE_OTHER v \<Rightarrow> Inl (PcursesException ''no package update state.''))"

text \<open>
  \<^verbatim>\<open>std::ctime\<close> is the C library's and is the parameter \<open>ctime\<close>: the text it returns
  for a time stamp, or \<^verbatim>\<open>NULL\<close>, here \<open>None\<close>, for a time stamp it cannot render. The code
  builds a \<^verbatim>\<open>std::string\<close> from the result with no test for \<^verbatim>\<open>NULL\<close>, which throws
  \<^verbatim>\<open>std::logic_error\<close>, and otherwise cuts the last character. For an empty text
  \<^verbatim>\<open>length() - 1\<close> wraps to \<^verbatim>\<open>npos\<close> and \<^verbatim>\<open>substr\<close> returns the empty text whole, as
  \<open>take\<close> does.
\<close>

definition getbuilddate ::
  "(time_t \<Rightarrow> string option) \<Rightarrow> Package \<Rightarrow> cxx_exception + string" where
  "getbuilddate ctime this =
     (case ctime (m_builddate this) of
        None \<Rightarrow> Inl std_logic_error
      | Some timestr \<Rightarrow> Inr (substr timestr 0 (length timestr - 1)))"

definition getattr ::
  "(time_t \<Rightarrow> string option) \<Rightarrow> Package \<Rightarrow> AttributeEnum \<Rightarrow> cxx_exception + string" where
  "getattr ctime this attr =
     (case attr of
        A_NAME \<Rightarrow> Inr (getname this)
      | A_VERSION \<Rightarrow> Inr (getversion this)
      | A_URL \<Rightarrow> Inr (geturl this)
      | A_REPO \<Rightarrow> Inr (getrepo this)
      | A_PACKAGER \<Rightarrow> Inr (getpackager this)
      | A_BUILDDATE \<Rightarrow> getbuilddate ctime this
      | A_INSTALLSTATE \<Rightarrow> getreason this
      | A_UPDATESTATE \<Rightarrow> getupdatestate this
      | A_DESC \<Rightarrow> Inr (getdesc this)
      | A_ARCH \<Rightarrow> Inr (getarch this)
      | A_LICENSES \<Rightarrow> Inr (getlicenses this)
      | A_GROUPS \<Rightarrow> Inr (getgroups this)
      | A_DEPENDS \<Rightarrow> Inr (getdepends this)
      | A_OPTDEPENDS \<Rightarrow> Inr (getoptdepends this)
      | A_CONFLICTS \<Rightarrow> Inr (getconflicts this)
      | A_PROVIDES \<Rightarrow> Inr (getprovides this)
      | A_REPLACES \<Rightarrow> Inr (getreplaces this)
      | A_REQUIREDBY \<Rightarrow> Inr (getrequiredby this)
      | A_OPTIONALFOR \<Rightarrow> Inr (getoptionalfor this)
      | A_SIGNATURE \<Rightarrow> Inr (getsignature this)
      | A_SIZE \<Rightarrow> Inr (getsize this)
      | A_ISIZE \<Rightarrow> Inr (getisize this)
      | A_NONE \<Rightarrow> Inr ''''
      | A_OTHER v \<Rightarrow> Inl (PcursesException ''Invalid attribute passed.''))"

definition getoffattr :: "Package \<Rightarrow> AttributeEnum \<Rightarrow> cxx_exception + off_t" where
  "getoffattr this attr =
     (case attr of
        A_BUILDDATE \<Rightarrow> Inr (m_builddate this)
      | A_SIZE \<Rightarrow> Inr (m_size this)
      | A_ISIZE \<Rightarrow> Inr (m_installsize this)
      | _ \<Rightarrow> Inl (PcursesException ''Invalid attribute passed.''))"

definition setcolindex :: "c_int \<Rightarrow> Package \<Rightarrow> Package" where
  "setcolindex index this = this\<lparr>m_colindex := index\<rparr>"

definition getcolindex :: "Package \<Rightarrow> c_int" where
  "getcolindex this = m_colindex this"

definition setop :: "OperationEnum \<Rightarrow> Package \<Rightarrow> Package" where
  "setop oe this = this\<lparr>op := oe\<rparr>"

definition getop :: "Package \<Rightarrow> OperationEnum" where
  "getop this = op this"

subsection \<open>Notions of the specification\<close>

text \<open>
  The specification's words for the two list renderings: the items in list order, with one
  copy of the delimiter between each two consecutive items and none before the first or
  after the last.
\<close>

fun join_with :: "string \<Rightarrow> string list \<Rightarrow> string" where
  "join_with delim [] = ''''"
| "join_with delim [x] = x"
| "join_with delim (x # y # ys) = x @ delim @ join_with delim (y # ys)"

text \<open>
  The specification's words for trimming: the input without its leading and its trailing
  run of spaces, tabs and newlines.
\<close>

definition is_space :: "char \<Rightarrow> bool" where
  "is_space c = (c = CHR '' '' \<or> c = CHR 0x09 \<or> c = CHR 0x0A)"

definition strip :: "string \<Rightarrow> string" where
  "strip s = rev (dropWhile is_space (rev (dropWhile is_space s)))"

text \<open>
  The specification's words for re-formatting. The text \<^verbatim>\<open>size2str\<close> returns is read back:
  the decimal number before the space, the unit label after it. The number is multiplied by
  1024 once for each step of the unit above B, which gives the byte count the text denotes;
  that count, cut to an integer as the conversion of a floating value to \<^verbatim>\<open>off_t\<close> does, is
  formatted again.
\<close>

definition digit_val :: "char \<Rightarrow> nat" where
  "digit_val c = length (takeWhile (\<lambda>d. d \<noteq> c) ''0123456789'')"

definition read_nat :: "string \<Rightarrow> nat" where
  "read_nat s = foldl (\<lambda>a c. 10 * a + digit_val c) 0 s"

definition read_fixed :: "string \<Rightarrow> rat" where
  "read_fixed s =
     (let neg = (take 1 s = ''-'');
          t = (if neg then drop 1 s else s);
          ip = takeWhile (\<lambda>c. c \<noteq> CHR ''.'') t;
          fp = drop 1 (dropWhile (\<lambda>c. c \<noteq> CHR ''.'') t)
      in (if neg then - 1 else 1) *
         (of_nat (read_nat ip) + of_nat (read_nat fp) / 10 ^ length fp))"

definition unit_index :: "string \<Rightarrow> nat" where
  "unit_index u = length (takeWhile (\<lambda>l. l \<noteq> u) units)"

definition read_size :: "string \<Rightarrow> rat" where
  "read_size s =
     (let num = takeWhile (\<lambda>c. c \<noteq> CHR '' '') s;
          u = drop 1 (dropWhile (\<lambda>c. c \<noteq> CHR '' '') s)
      in read_fixed num * 1024 ^ unit_index u)"

definition truncate_rat :: "rat \<Rightarrow> int" where
  "truncate_rat x = (if x < 0 then - \<lfloor>- x\<rfloor> else \<lfloor>x\<rfloor>)"

definition reformat :: "off_t \<Rightarrow> string" where
  "reformat b = size2str (word_of_int (truncate_rat (read_size (size2str b))))"

subsection \<open>Sample values\<close>

text \<open>
  A storage for a new object, two package handles, a database that holds the second one,
  and stand-ins for the library functions, used to run the model on concrete inputs.
\<close>

definition sample_storage :: Package where
  "sample_storage =
     \<lparr>m_name = ''?'', m_url = ''?'', m_packager = ''?'', m_desc = ''?'', m_version = ''?'',
      m_dbname = ''?'', m_builddate = 7, m_arch = ''?'', m_size = 7, m_installsize = 7,
      m_sizestr = ''?'', m_installsizestr = ''?'', m_licenses = ''?'', m_groups = ''?'',
      m_optdepends = ''?'', m_conflicts = ''?'', m_provides = ''?'', m_replaces = ''?'',
      m_depends = ''?'', m_signature = ''?'', m_updatestate = USE_OTHER 99,
      m_localversion = ''?'', m_requiredby = ''?'', m_optionalfor = ''?'',
      m_reason = IRE_OTHER 99, m_colindex = 3, op = 5\<rparr>"

definition sample_pkg :: "string alpm_pkg_t" where
  "sample_pkg =
     \<lparr>alpm_pkg_get_name = Some ''zlib'', alpm_pkg_get_url = Some '' https://zlib.net '',
      alpm_pkg_get_packager = None, alpm_pkg_get_desc = Some ''Compression library'',
      alpm_pkg_get_version = ''2.0'', alpm_pkg_get_db_name = Some ''core'',
      alpm_pkg_get_builddate = 0, alpm_pkg_get_arch = Some ''x86_64'',
      alpm_pkg_get_size = 1536, alpm_pkg_get_isize = 2097152,
      alpm_pkg_get_licenses = [''Zlib''], alpm_pkg_get_groups = [],
      alpm_pkg_get_optdepends = [], alpm_pkg_get_conflicts = [], alpm_pkg_get_provides = [],
      alpm_pkg_get_replaces = [], alpm_pkg_get_depends = [''glibc'', ''gcc-libs''],
      alpm_pkg_get_base64_sig = None, alpm_pkg_get_reason = ALPM_PKG_REASON_EXPLICIT,
      alpm_pkg_compute_requiredby = [], alpm_pkg_compute_optionalfor = []\<rparr>"

definition sample_localpkg :: "string \<Rightarrow> alpm_pkgreason_t \<Rightarrow> string alpm_pkg_t" where
  "sample_localpkg version reason =
     sample_pkg\<lparr>alpm_pkg_get_version := version, alpm_pkg_get_db_name := Some ''local'',
       alpm_pkg_get_reason := reason, alpm_pkg_compute_requiredby := [''pacman'', ''file'']\<rparr>"

definition sample_db :: "string alpm_pkg_t \<Rightarrow> string alpm_db_t" where
  "sample_db lp name = (if name = alpm_pkg_get_name lp then Some lp else None)"

definition empty_db :: "string alpm_db_t" where
  "empty_db name = None"

text \<open>A stand-in for \<^verbatim>\<open>alpm_pkg_vercmp\<close>: byte-wise comparison, as \<^verbatim>\<open>strcmp\<close> does.\<close>

fun sample_vercmp :: "string \<Rightarrow> string \<Rightarrow> int" where
  "sample_vercmp [] [] = 0"
| "sample_vercmp [] (y # ys) = - 1"
| "sample_vercmp (x # xs) [] = 1"
| "sample_vercmp (x # xs) (y # ys) =
     (if (of_char x :: nat) < of_char y then - 1
      else if (of_char y :: nat) < of_char x then 1
      else sample_vercmp xs ys)"

text \<open>
  A stand-in for \<^verbatim>\<open>ctime\<close> in the time zone UTC. The days since the epoch are turned into
  a date of the Gregorian calendar, and the text has the layout of \<^verbatim>\<open>asctime\<close>, that is
  \<^verbatim>\<open>%.3s %.3s%3d %.2d:%.2d:%.2d %d\<close> and a newline. Where the year less 1900 does not fit the
  \<^verbatim>\<open>int\<close> member \<^verbatim>\<open>tm_year\<close>, the library has no broken-down time and returns \<^verbatim>\<open>NULL\<close>.
\<close>

definition civil_from_days :: "int \<Rightarrow> int \<times> int \<times> int" where
  "civil_from_days z =
     (let z' = z + 719468;
          era = z' div 146097;
          doe = z' mod 146097;
          yoe = (doe - doe div 1460 + doe div 36524 - doe div 146096) div 365;
          doy = doe - (365 * yoe + yoe div 4 - yoe div 100);
          mp = (5 * doy + 2) div 153;
          d = doy - (153 * mp + 2) div 5 + 1;
          m = (if mp < 10 then mp + 3 else mp - 9);
          y = yoe + era * 400 + (if m \<le> 2 then 1 else 0)
      in (y, m, d))"

definition pad_left :: "nat \<Rightarrow> char \<Rightarrow> string \<Rightarrow> string" where
  "pad_left n c s = replicate (n - length s) c @ s"

definition show_int :: "int \<Rightarrow> string" where
  "show_int i = (if i < 0 then ''-'' @ show_nat (nat (- i)) else show_nat (nat i))"

definition wday_name :: "string list" where
  "wday_name = [''Thu'', ''Fri'', ''Sat'', ''Sun'', ''Mon'', ''Tue'', ''Wed'']"

definition mon_name :: "string list" where
  "mon_name = [''Jan'', ''Feb'', ''Mar'', ''Apr'', ''May'', ''Jun'',
               ''Jul'', ''Aug'', ''Sep'', ''Oct'', ''Nov'', ''Dec'']"

definition sample_ctime :: "time_t \<Rightarrow> string option" where
  "sample_ctime t =
     (let days = sint t div 86400;
          secs = sint t mod 86400;
          (y, m, d) = civil_from_days days
      in if y - 1900 < - (2 ^ 31) \<or> 2 ^ 31 - 1 < y - 1900 then None
         else Some (wday_name ! nat (days mod 7) @ '' '' @ mon_name ! nat (m - 1)
                @ pad_left 3 CHR '' '' (show_int d) @ '' ''
                @ pad_left 2 CHR ''0'' (show_int (secs div 3600)) @ '':''
                @ pad_left 2 CHR ''0'' (show_int (secs mod 3600 div 60)) @ '':''
                @ pad_left 2 CHR ''0'' (show_int (secs mod 60)) @ '' ''
                @ show_int y @ [CHR 0x0A]))"

text \<open>A package handle whose build date is \<open>2 ^ 62\<close> seconds after the epoch.\<close>

definition late_pkg :: "string alpm_pkg_t" where
  "late_pkg = sample_pkg\<lparr>alpm_pkg_get_builddate := 4611686018427387904\<rparr>"

section \<open>Properties\<close>

subsection \<open>Joining lists\<close>

lemma join_with_Cons: "join_with d (x # xs) = x @ concat (map (\<lambda>s. d @ s) xs)"
  by (induction xs arbitrary: x) auto

lemma list2str_loop_False:
  "list2str_loop False res l d = res @ concat (map (\<lambda>s. d @ s) l)"
  by (induction l arbitrary: res) auto

lemma list2str_join: "list2str l d = join_with d l"
  by (cases l) (simp_all add: list2str_def list2str_loop_False join_with_Cons)

lemma deplist2str_loop_join:
  "deplist2str_loop f res l d = res @ join_with d (map f l)"
proof (induction l arbitrary: res)
  case Nil
  then show ?case by simp
next
  case (Cons x rest)
  have "deplist2str_loop f res (x # rest) d =
        deplist2str_loop f ((res @ f x) @ (if rest \<noteq> [] then d else [])) rest d"
    by simp
  also have "\<dots> = ((res @ f x) @ (if rest \<noteq> [] then d else [])) @ join_with d (map f rest)"
    by (rule Cons.IH)
  also have "\<dots> = res @ join_with d (map f (x # rest))"
    by (cases rest) simp_all
  finally show ?case .
qed

lemma deplist2str_join: "deplist2str f l d = join_with d (map f l)"
  by (simp add: deplist2str_def deplist2str_loop_join)

text \<open>
  C10. \<^verbatim>\<open>list2str\<close> and \<^verbatim>\<open>deplist2str\<close> return the empty string for an empty list and the
  single item's string for a one-element list; for a longer list the first item is followed
  by one delimiter and by the rendering of the rest, so the items come in list order with
  exactly one delimiter between two consecutive items and none at either end. Both agree
  with \<open>join_with\<close>.
\<close>

theorem C10_join:
  "list2str [] delim = '''' \<and> deplist2str f [] delim = ''''
   \<and> list2str [s] delim = s \<and> deplist2str f [x] delim = f x
   \<and> list2str (s # t # l) delim = s @ delim @ list2str (t # l) delim
   \<and> deplist2str f (x # y # m) delim = f x @ delim @ deplist2str f (y # m) delim
   \<and> list2str l' delim = join_with delim l'
   \<and> deplist2str f m' delim = join_with delim (map f m')"
  by (simp add: list2str_join deplist2str_join)

subsection \<open>Trimming\<close>

lemma is_space_whitespace: "c \<in> set whitespace \<longleftrightarrow> is_space c"
  by (auto simp: whitespace_def is_space_def)

lemma find_first_not_of_eq:
  "find_first_not_of s cs =
     (if \<forall>c\<in>set s. c \<in> set cs then None
      else Some (length (takeWhile (\<lambda>c. c \<in> set cs) s)))"
  by (induction s) auto

lemma length_takeWhile_less:
  "x \<in> set xs \<Longrightarrow> \<not> P x \<Longrightarrow> length (takeWhile P xs) < length xs"
  by (induction xs) auto

lemma find_last_not_of_eq:
  "find_last_not_of s cs =
     (if \<forall>c\<in>set s. c \<in> set cs then None
      else Some (length s - length (takeWhile (\<lambda>c. c \<in> set cs) (rev s)) - 1))"
proof (induction s)
  case Nil
  then show ?case by simp
next
  case (Cons a s)
  show ?case
  proof (cases "\<forall>c\<in>set s. c \<in> set cs")
    case True
    then have "takeWhile (\<lambda>c. c \<in> set cs) (rev s @ [a]) =
               rev s @ takeWhile (\<lambda>c. c \<in> set cs) [a]"
      by (intro takeWhile_append2) simp
    with True Cons show ?thesis by simp
  next
    case False
    then obtain x where x: "x \<in> set (rev s)" "x \<notin> set cs" by auto
    then have tw: "takeWhile (\<lambda>c. c \<in> set cs) (rev s @ [a]) =
               takeWhile (\<lambda>c. c \<in> set cs) (rev s)"
      by (intro takeWhile_append1) 
    have "length (takeWhile (\<lambda>c. c \<in> set cs) (rev s)) < length (rev s)"
      using x by (rule length_takeWhile_less)
    with False Cons tw show ?thesis by (simp add: Suc_diff_Suc)
  qed
qed

lemma strip_eq_take_drop:
  assumes "\<not> (\<forall>c\<in>set s. P c)"
  shows "rev (dropWhile P (rev (dropWhile P s))) =
         take (length s - length (takeWhile P (rev s)) - 1 - length (takeWhile P s) + 1)
           (drop (length (takeWhile P s)) s)"
proof -
  define i where "i = length (takeWhile P s)"
  define ys where "ys = dropWhile P s"
  define n where "n = length (takeWhile P (rev s))"
  have ys_drop: "ys = drop i s"
    by (simp add: ys_def i_def dropWhile_eq_drop)
  have s_split: "s = takeWhile P s @ ys"
    by (simp add: ys_def)
  have len_ys: "length ys = length s - i"
    by (simp add: ys_drop)
  from assms obtain x where x: "x \<in> set ys" "\<not> P x"
    unfolding ys_def by (metis dropWhile_eq_Nil_conv hd_dropWhile hd_in_set)
  have "rev s = rev ys @ rev (takeWhile P s)"
    by (subst s_split) simp
  then have "takeWhile P (rev s) = takeWhile P (rev ys)"
    using x by (simp add: takeWhile_append1 [where x = x])
  then have n_ys: "n = length (takeWhile P (rev ys))"
    by (simp add: n_def)
  have "length (takeWhile P (rev ys)) < length (rev ys)"
    using x by (intro length_takeWhile_less [where x = x]) simp_all
  then have n_less: "n < length ys"
    by (simp add: n_ys)
  have "rev (dropWhile P (rev ys)) = rev (drop n (rev ys))"
    by (simp add: n_ys dropWhile_eq_drop)
  also have "\<dots> = take (length ys - n) ys"
    by (simp add: rev_drop)
  also have "length ys - n = length s - n - 1 - i + 1"
    using n_less len_ys by arith
  finally show ?thesis
    by (simp add: ys_drop i_def n_def ys_def [symmetric])
qed

lemma dropWhile_all: "(\<forall>c\<in>set s. P c) \<Longrightarrow> dropWhile P s = []"
  by (induction s) auto

lemma strip_all_space: "(\<forall>c\<in>set s. is_space c) \<Longrightarrow> strip s = []"
  unfolding strip_def by (simp only: dropWhile_all rev.simps dropWhile.simps)

lemma whitespace_is_space: "(\<lambda>c. c \<in> set whitespace) = is_space"
  by (rule ext) (simp add: is_space_whitespace)

lemma find_first_not_of_None:
  assumes "\<And>c. c \<in> set s \<Longrightarrow> is_space c"
  shows "find_first_not_of s whitespace = None"
  using assms by (simp add: find_first_not_of_eq is_space_whitespace)

lemma find_first_not_of_Some:
  assumes "x \<in> set s" "\<not> is_space x"
  shows "find_first_not_of s whitespace = Some (length (takeWhile is_space s))"
proof -
  have "\<not> (\<forall>c\<in>set s. c \<in> set whitespace)"
    using assms by (auto simp: is_space_whitespace)
  then show ?thesis
    by (simp only: find_first_not_of_eq if_False whitespace_is_space)
qed

lemma find_last_not_of_Some:
  assumes "x \<in> set s" "\<not> is_space x"
  shows "find_last_not_of s whitespace =
         Some (length s - length (takeWhile is_space (rev s)) - 1)"
proof -
  have "\<not> (\<forall>c\<in>set s. c \<in> set whitespace)"
    using assms by (auto simp: is_space_whitespace)
  then show ?thesis
    by (simp only: find_last_not_of_eq if_False whitespace_is_space)
qed

lemma trimstr_strip: "trimstr (Some s) = strip s"
proof (cases "\<forall>c\<in>set s. is_space c")
  case True
  then show ?thesis
    by (simp add: trimstr_def strip_all_space find_first_not_of_None)
next
  case False
  then obtain x where x: "x \<in> set s" "\<not> is_space x"
    by blast
  have "trimstr (Some s) =
        substr s (length (takeWhile is_space s))
          (length s - length (takeWhile is_space (rev s)) - 1 - length (takeWhile is_space s) + 1)"
    by (simp add: trimstr_def find_first_not_of_Some [OF x] find_last_not_of_Some [OF x])
  also have "\<dots> = strip s"
    unfolding substr_def strip_def using strip_eq_take_drop [OF False] by simp
  finally show ?thesis .
qed

lemma strip_ends:
  assumes "strip s \<noteq> []"
  shows "\<not> is_space (hd (strip s)) \<and> \<not> is_space (last (strip s))"
proof -
  define ys where "ys = dropWhile is_space s"
  define zs where "zs = dropWhile is_space (rev ys)"
  have st: "strip s = rev zs" by (simp add: strip_def ys_def zs_def)
  with assms have zs: "zs \<noteq> []" by simp
  then have ys: "ys \<noteq> []" by (auto simp: zs_def)
  have "\<not> is_space (hd zs)"
    using zs unfolding zs_def by (rule hd_dropWhile)
  then have l: "\<not> is_space (last (strip s))"
    using zs by (simp add: st last_rev)
  have "last zs = last (rev ys)"
    using zs unfolding zs_def by (metis takeWhile_dropWhile_id last_appendR)
  also have "\<dots> = hd ys" using ys by (simp add: last_rev)
  finally have "hd (strip s) = hd ys"
    using zs by (simp add: st hd_rev)
  moreover have "\<not> is_space (hd ys)"
    using ys unfolding ys_def by (rule hd_dropWhile)
  ultimately show ?thesis using l by simp
qed

lemma strip_decompose:
  assumes "\<not> (\<forall>c\<in>set s. is_space c)"
  shows "s = takeWhile is_space s @ strip s @ rev (takeWhile is_space (rev s))"
proof -
  define ys where "ys = dropWhile is_space s"
  from assms obtain x where x: "x \<in> set ys" "\<not> is_space x"
    unfolding ys_def by (metis dropWhile_eq_Nil_conv hd_dropWhile hd_in_set)
  have "rev s = rev ys @ rev (takeWhile is_space s)"
    unfolding ys_def by (metis rev_append takeWhile_dropWhile_id)
  then have tw: "takeWhile is_space (rev s) = takeWhile is_space (rev ys)"
    using x by (simp add: takeWhile_append1 [where x = x])
  have "rev (rev ys) =
        rev (dropWhile is_space (rev ys)) @ rev (takeWhile is_space (rev ys))"
    by (metis rev_append takeWhile_dropWhile_id)
  then have "ys = strip s @ rev (takeWhile is_space (rev s))"
    by (simp add: strip_def ys_def [symmetric] tw)
  moreover have "s = takeWhile is_space s @ ys" by (simp add: ys_def)
  ultimately show ?thesis by simp
qed

text \<open>
  C5. \<^verbatim>\<open>trimstr\<close> returns the empty string for a null input and for an input of spaces,
  tabs and newlines only. For any input it returns \<open>strip\<close> of it: the input is its leading
  run of whitespace, then the result, then its trailing run of whitespace, and a result that
  is not empty neither starts nor ends with a space, a tab or a newline.
\<close>

theorem C5_trimstr:
  "trimstr None = ''''
   \<and> ((\<forall>c\<in>set s. is_space c) \<longrightarrow> trimstr (Some s) = '''')
   \<and> trimstr (Some s) = strip s
   \<and> (\<not> (\<forall>c\<in>set s. is_space c) \<longrightarrow>
        s = takeWhile is_space s @ trimstr (Some s) @ rev (takeWhile is_space (rev s)))
   \<and> (trimstr (Some s) \<noteq> '''' \<longrightarrow>
        \<not> is_space (hd (trimstr (Some s))) \<and> \<not> is_space (last (trimstr (Some s))))"
proof -
  have "trimstr None = ''''" by (simp add: trimstr_def)
  moreover have "(\<forall>c\<in>set s. is_space c) \<longrightarrow> trimstr (Some s) = ''''"
    by (simp add: trimstr_strip strip_all_space)
  moreover note trimstr_strip [of s]
  moreover have "\<not> (\<forall>c\<in>set s. is_space c) \<longrightarrow>
        s = takeWhile is_space s @ trimstr (Some s) @ rev (takeWhile is_space (rev s))"
    using strip_decompose [of s] by (simp add: trimstr_strip)
  moreover have "trimstr (Some s) \<noteq> '''' \<longrightarrow>
        \<not> is_space (hd (trimstr (Some s))) \<and> \<not> is_space (last (trimstr (Some s)))"
    using strip_ends [of s] by (simp add: trimstr_strip)
  ultimately show ?thesis by blast
qed

theorem C5_trimstr_witness:
  "trimstr (Some (CHR 0x09 # ''  ab c '' @ [CHR 0x0A, CHR '' ''])) = ''ab c''
   \<and> trimstr (Some [CHR '' '', CHR 0x0A, CHR 0x09]) = ''''
   \<and> trimstr None = ''''
   \<and> \<not> is_space (hd (trimstr (Some (CHR 0x09 # ''  ab c '' @ [CHR 0x0A, CHR '' '']))))
   \<and> \<not> is_space (last (trimstr (Some (CHR 0x09 # ''  ab c '' @ [CHR 0x0A, CHR '' '']))))"
proof -
  let ?s = "CHR 0x09 # ''  ab c '' @ [CHR 0x0A, CHR '' '']"
  let ?w = "[CHR '' '', CHR 0x0A, CHR 0x09]"
  note s = C5_trimstr [of ?s] and w = C5_trimstr [of ?w]
  have "strip ?s = ''ab c''"
    by (simp add: strip_def is_space_def)
  with s have a: "trimstr (Some ?s) = ''ab c''"
    by simp
  then have "trimstr (Some ?s) \<noteq> ''''"
    by simp
  with s have b: "\<not> is_space (hd (trimstr (Some ?s))) \<and> \<not> is_space (last (trimstr (Some ?s)))"
    by blast
  have "\<forall>c\<in>set ?w. is_space c"
    by (simp add: is_space_def)
  with w have c: "trimstr (Some ?w) = ''''"
    by blast
  from s have d: "trimstr None = ''''"
    by blast
  from a b c d show ?thesis
    by blast
qed

subsection \<open>The constructor\<close>

lemma ctor_updatestate:
  "m_updatestate (Package_ctor vercmp dep_string pkg localdb this) =
     (case alpm_db_get_pkg localdb (alpm_pkg_get_name pkg) of
        None \<Rightarrow> USE_NOTINSTALLED
      | Some lp \<Rightarrow>
          if 0 < vercmp (trimstr (Some (alpm_pkg_get_version pkg))) (alpm_pkg_get_version lp)
          then USE_UPDATEAVAILABLE else USE_UPTODATE)"
  by (simp add: Package_ctor_def Let_def default_strings_def split: option.split)

lemma ctor_reason:
  "m_reason (Package_ctor vercmp dep_string pkg localdb this) =
     (case alpm_db_get_pkg localdb (alpm_pkg_get_name pkg) of
        None \<Rightarrow> IRE_NOTINSTALLED
      | Some lp \<Rightarrow>
          if alpm_pkg_get_reason lp = ALPM_PKG_REASON_DEPEND then IRE_ASDEPS else IRE_EXPLICIT)"
  by (simp add: Package_ctor_def Let_def default_strings_def split: option.split)

lemma ctor_version:
  "m_version (Package_ctor vercmp dep_string pkg localdb this) =
     trimstr (Some (alpm_pkg_get_version pkg))"
  by (simp add: Package_ctor_def Let_def default_strings_def split: option.split)

lemma ctor_localversion:
  "m_localversion (Package_ctor vercmp dep_string pkg localdb this) =
     (case alpm_db_get_pkg localdb (alpm_pkg_get_name pkg) of
        None \<Rightarrow> ''''
      | Some lp \<Rightarrow> alpm_pkg_get_version lp)"
  by (simp add: Package_ctor_def Let_def default_strings_def split: option.split)

lemma ctor_builddate:
  "m_builddate (Package_ctor vercmp dep_string pkg localdb this) = alpm_pkg_get_builddate pkg"
  by (simp add: Package_ctor_def Let_def default_strings_def split: option.split)

lemma ctor_unassigned:
  "m_colindex (Package_ctor vercmp dep_string pkg localdb this) = m_colindex this"
  "op (Package_ctor vercmp dep_string pkg localdb this) = op this"
  by (simp_all add: Package_ctor_def Let_def default_strings_def split: option.split)

subsection \<open>The sample values\<close>

lemma trimstr_sample_version: "trimstr (Some ''2.0'') = ''2.0''"
  by (simp add: trimstr_def whitespace_def substr_def)

lemma sample_lookup_none: "alpm_db_get_pkg empty_db name = None"
  by (simp add: alpm_db_get_pkg_def empty_db_def)

lemma sample_lookup_some:
  "alpm_db_get_pkg (sample_db (sample_localpkg v r)) (alpm_pkg_get_name sample_pkg)
     = Some (sample_localpkg v r)"
  by (simp add: alpm_db_get_pkg_def sample_db_def sample_localpkg_def)

lemma sample_pkg_version: "alpm_pkg_get_version sample_pkg = ''2.0''"
  by (simp add: sample_pkg_def)

lemma sample_localpkg_fields:
  "alpm_pkg_get_version (sample_localpkg v r) = v"
  "alpm_pkg_get_reason (sample_localpkg v r) = r"
  by (simp_all add: sample_localpkg_def)

lemma sample_vercmp_values:
  "sample_vercmp ''2.0'' ''1.0'' = 1"
  "sample_vercmp ''2.0'' ''2.0'' = 0"
  by simp_all

subsection \<open>Update state and install reason\<close>

text \<open>
  C2. For the Package \<open>p\<close> the constructor builds: when the lookup of the package's name
  in the local database finds nothing, the update state is \<open>USE_NOTINSTALLED\<close>; when it
  finds \<open>lp\<close>, the stored version is the trimmed version of the package, the stored local
  version is the version of \<open>lp\<close>, and the update state is \<open>USE_UPDATEAVAILABLE\<close> when the
  comparison of the two is greater than 0 and \<open>USE_UPTODATE\<close> otherwise, as for equal
  version strings, which the comparison maps to 0.
\<close>

theorem C2_updatestate:
  assumes "p = Package_ctor vercmp dep_string pkg localdb this"
  shows "(alpm_db_get_pkg localdb (alpm_pkg_get_name pkg) = None \<longrightarrow>
            m_updatestate p = USE_NOTINSTALLED)
       \<and> (\<forall>lp. alpm_db_get_pkg localdb (alpm_pkg_get_name pkg) = Some lp \<longrightarrow>
            m_version p = trimstr (Some (alpm_pkg_get_version pkg))
          \<and> m_localversion p = alpm_pkg_get_version lp
          \<and> (0 < vercmp (m_version p) (m_localversion p) \<longrightarrow>
                m_updatestate p = USE_UPDATEAVAILABLE)
          \<and> (\<not> 0 < vercmp (m_version p) (m_localversion p) \<longrightarrow>
                m_updatestate p = USE_UPTODATE)
          \<and> (m_version p = m_localversion p \<and> vercmp (m_version p) (m_version p) = 0 \<longrightarrow>
                m_updatestate p = USE_UPTODATE))"
  unfolding assms
  by (simp add: ctor_updatestate ctor_version ctor_localversion)

theorem C2_updatestate_witness:
  "m_updatestate (Package_ctor sample_vercmp id sample_pkg empty_db sample_storage)
     = USE_NOTINSTALLED
   \<and> m_updatestate (Package_ctor sample_vercmp id sample_pkg
        (sample_db (sample_localpkg ''1.0'' ALPM_PKG_REASON_EXPLICIT)) sample_storage)
     = USE_UPDATEAVAILABLE
   \<and> m_updatestate (Package_ctor sample_vercmp id sample_pkg
        (sample_db (sample_localpkg ''2.0'' ALPM_PKG_REASON_EXPLICIT)) sample_storage)
     = USE_UPTODATE"
proof -
  note n = C2_updatestate [OF refl, where vercmp = sample_vercmp and dep_string = id
      and pkg = sample_pkg and this = sample_storage and localdb = empty_db]
  note u = C2_updatestate [OF refl, where vercmp = sample_vercmp and dep_string = id
      and pkg = sample_pkg and this = sample_storage and localdb = "sample_db (sample_localpkg ''1.0'' ALPM_PKG_REASON_EXPLICIT)"]
  note e = C2_updatestate [OF refl, where vercmp = sample_vercmp and dep_string = id
      and pkg = sample_pkg and this = sample_storage and localdb = "sample_db (sample_localpkg ''2.0'' ALPM_PKG_REASON_EXPLICIT)"]
  have a: "m_updatestate (Package_ctor sample_vercmp id sample_pkg empty_db sample_storage)
      = USE_NOTINSTALLED"
    using n by (simp add: sample_lookup_none)
  have b: "m_updatestate (Package_ctor sample_vercmp id sample_pkg
        (sample_db (sample_localpkg ''1.0'' ALPM_PKG_REASON_EXPLICIT)) sample_storage)
      = USE_UPDATEAVAILABLE"
    using u by (simp add: sample_lookup_some sample_pkg_version sample_localpkg_fields
        trimstr_sample_version)
  have c: "m_updatestate (Package_ctor sample_vercmp id sample_pkg
        (sample_db (sample_localpkg ''2.0'' ALPM_PKG_REASON_EXPLICIT)) sample_storage)
      = USE_UPTODATE"
    using e by (simp add: sample_lookup_some sample_pkg_version sample_localpkg_fields
        trimstr_sample_version)
  from a b c show ?thesis by blast
qed

text \<open>
  C3. For the Package \<open>p\<close> the constructor builds: when the lookup of the package's name
  in the local database finds nothing, the install reason is \<open>IRE_NOTINSTALLED\<close>; when it
  finds \<open>lp\<close>, the install reason is \<open>IRE_ASDEPS\<close> if the reason recorded for \<open>lp\<close> is the
  dependency reason and \<open>IRE_EXPLICIT\<close> for any other recorded reason.
\<close>

theorem C3_reason:
  assumes "p = Package_ctor vercmp dep_string pkg localdb this"
  shows "(alpm_db_get_pkg localdb (alpm_pkg_get_name pkg) = None \<longrightarrow>
            m_reason p = IRE_NOTINSTALLED)
       \<and> (\<forall>lp. alpm_db_get_pkg localdb (alpm_pkg_get_name pkg) = Some lp \<longrightarrow>
            (alpm_pkg_get_reason lp = ALPM_PKG_REASON_DEPEND \<longrightarrow> m_reason p = IRE_ASDEPS)
          \<and> (alpm_pkg_get_reason lp \<noteq> ALPM_PKG_REASON_DEPEND \<longrightarrow> m_reason p = IRE_EXPLICIT))"
  unfolding assms
  by (simp add: ctor_reason)

theorem C3_reason_witness:
  "m_reason (Package_ctor sample_vercmp id sample_pkg empty_db sample_storage)
     = IRE_NOTINSTALLED
   \<and> m_reason (Package_ctor sample_vercmp id sample_pkg
        (sample_db (sample_localpkg ''1.0'' ALPM_PKG_REASON_DEPEND)) sample_storage)
     = IRE_ASDEPS
   \<and> m_reason (Package_ctor sample_vercmp id sample_pkg
        (sample_db (sample_localpkg ''1.0'' ALPM_PKG_REASON_EXPLICIT)) sample_storage)
     = IRE_EXPLICIT
   \<and> m_reason (Package_ctor sample_vercmp id sample_pkg
        (sample_db (sample_localpkg ''1.0'' (ALPM_PKG_REASON_OTHER 2))) sample_storage)
     = IRE_EXPLICIT"
proof -
  note n = C3_reason [OF refl, where vercmp = sample_vercmp and dep_string = id
      and pkg = sample_pkg and this = sample_storage and localdb = empty_db]
  note d = C3_reason [OF refl, where vercmp = sample_vercmp and dep_string = id
      and pkg = sample_pkg and this = sample_storage and localdb = "sample_db (sample_localpkg ''1.0'' ALPM_PKG_REASON_DEPEND)"]
  note e = C3_reason [OF refl, where vercmp = sample_vercmp and dep_string = id
      and pkg = sample_pkg and this = sample_storage and localdb = "sample_db (sample_localpkg ''1.0'' ALPM_PKG_REASON_EXPLICIT)"]
  note x = C3_reason [OF refl, where vercmp = sample_vercmp and dep_string = id
      and pkg = sample_pkg and this = sample_storage and localdb = "sample_db (sample_localpkg ''1.0'' (ALPM_PKG_REASON_OTHER 2))"]
  have a: "m_reason (Package_ctor sample_vercmp id sample_pkg empty_db sample_storage)
      = IRE_NOTINSTALLED"
    using n by (simp add: sample_lookup_none)
  have b: "m_reason (Package_ctor sample_vercmp id sample_pkg
        (sample_db (sample_localpkg ''1.0'' ALPM_PKG_REASON_DEPEND)) sample_storage)
      = IRE_ASDEPS"
    using d by (simp add: sample_lookup_some sample_localpkg_fields)
  have c: "m_reason (Package_ctor sample_vercmp id sample_pkg
        (sample_db (sample_localpkg ''1.0'' ALPM_PKG_REASON_EXPLICIT)) sample_storage)
      = IRE_EXPLICIT"
    using e by (simp add: sample_lookup_some sample_localpkg_fields)
  have d: "m_reason (Package_ctor sample_vercmp id sample_pkg
        (sample_db (sample_localpkg ''1.0'' (ALPM_PKG_REASON_OTHER 2))) sample_storage)
      = IRE_EXPLICIT"
    using x by (simp add: sample_lookup_some sample_localpkg_fields)
  from a b c d show ?thesis by blast
qed

subsection \<open>Attribute dispatch\<close>

text \<open>
  C4. \<^verbatim>\<open>getattr\<close> returns the empty string for \<open>A_NONE\<close>, for every Package, and throws
  the exception "Invalid attribute passed." for a value that is not an enumerator.
  \<^verbatim>\<open>getoffattr\<close> returns the build date, the size and the installed size for
  \<open>A_BUILDDATE\<close>, \<open>A_SIZE\<close> and \<open>A_ISIZE\<close>, and throws that same exception for every other
  attribute, \<open>A_NAME\<close> among them: it returns a number for these three only.
\<close>

theorem C4_dispatch:
  "getattr ctime p A_NONE = Inr ''''
   \<and> getattr ctime p (A_OTHER v) = Inl (PcursesException ''Invalid attribute passed.'')
   \<and> getoffattr p A_NAME = Inl (PcursesException ''Invalid attribute passed.'')
   \<and> (a \<noteq> A_BUILDDATE \<and> a \<noteq> A_SIZE \<and> a \<noteq> A_ISIZE \<longrightarrow>
        getoffattr p a = Inl (PcursesException ''Invalid attribute passed.''))
   \<and> getoffattr p A_BUILDDATE = Inr (m_builddate p)
   \<and> getoffattr p A_SIZE = Inr (m_size p)
   \<and> getoffattr p A_ISIZE = Inr (m_installsize p)
   \<and> ((\<exists>n. getoffattr p a = Inr n) \<longleftrightarrow> a = A_BUILDDATE \<or> a = A_SIZE \<or> a = A_ISIZE)"
  by (cases a) (simp_all add: getattr_def getoffattr_def)

theorem C4_dispatch_witness:
  "getattr sample_ctime sample_storage A_NONE = Inr ''''
   \<and> getattr sample_ctime sample_storage (A_OTHER 99)
       = Inl (PcursesException ''Invalid attribute passed.'')
   \<and> getoffattr sample_storage A_VERSION = Inl (PcursesException ''Invalid attribute passed.'')
   \<and> getoffattr sample_storage A_SIZE = Inr 7"
  using C4_dispatch [of sample_ctime sample_storage 99 A_VERSION]
  by (simp add: sample_storage_def)

subsection \<open>The version accessor\<close>

text \<open>
  C6. For every Package, \<^verbatim>\<open>getversion\<close> returns the version, \<open>" (local: "\<close>, the local
  version and \<open>")"\<close> when the update state is \<open>USE_UPDATEAVAILABLE\<close>, and the stored version
  unchanged in every other state; it returns the former exactly in that state. With version
  \<open>"2.0"\<close> and local version \<open>"1.0"\<close> the former is \<open>"2.0 (local: 1.0)"\<close>.
\<close>

theorem C6_getversion:
  "(m_updatestate p = USE_UPDATEAVAILABLE \<longrightarrow>
      getversion p = m_version p @ '' (local: '' @ m_localversion p @ '')'')
   \<and> (m_updatestate p \<noteq> USE_UPDATEAVAILABLE \<longrightarrow> getversion p = m_version p)
   \<and> (getversion p = m_version p @ '' (local: '' @ m_localversion p @ '')''
        \<longleftrightarrow> m_updatestate p = USE_UPDATEAVAILABLE)
   \<and> (m_updatestate p = USE_UPDATEAVAILABLE \<and> m_version p = ''2.0'' \<and> m_localversion p = ''1.0''
        \<longrightarrow> getversion p = ''2.0 (local: 1.0)'')"
  by (simp add: getversion_def)

theorem C6_getversion_witness:
  "getversion (Package_ctor sample_vercmp id sample_pkg
      (sample_db (sample_localpkg ''1.0'' ALPM_PKG_REASON_EXPLICIT)) sample_storage)
     = ''2.0 (local: 1.0)''
   \<and> getversion (Package_ctor sample_vercmp id sample_pkg
      (sample_db (sample_localpkg ''2.0'' ALPM_PKG_REASON_EXPLICIT)) sample_storage)
     = ''2.0''
   \<and> getversion (Package_ctor sample_vercmp id sample_pkg empty_db sample_storage) = ''2.0''"
proof -
  let ?u = "Package_ctor sample_vercmp id sample_pkg
      (sample_db (sample_localpkg ''1.0'' ALPM_PKG_REASON_EXPLICIT)) sample_storage"
  let ?e = "Package_ctor sample_vercmp id sample_pkg
      (sample_db (sample_localpkg ''2.0'' ALPM_PKG_REASON_EXPLICIT)) sample_storage"
  let ?n = "Package_ctor sample_vercmp id sample_pkg empty_db sample_storage"
  have u: "m_updatestate ?u = USE_UPDATEAVAILABLE" "m_version ?u = ''2.0''"
      "m_localversion ?u = ''1.0''"
    by (simp_all add: ctor_updatestate ctor_version ctor_localversion sample_lookup_some
        sample_pkg_version sample_localpkg_fields trimstr_sample_version)
  have e: "m_updatestate ?e \<noteq> USE_UPDATEAVAILABLE" "m_version ?e = ''2.0''"
    by (simp_all add: ctor_updatestate ctor_version sample_lookup_some
        sample_pkg_version sample_localpkg_fields trimstr_sample_version)
  have n: "m_updatestate ?n \<noteq> USE_UPDATEAVAILABLE" "m_version ?n = ''2.0''"
    by (simp_all add: ctor_updatestate ctor_version sample_lookup_none
        sample_pkg_version trimstr_sample_version)
  have "getversion ?u = ''2.0 (local: 1.0)''"
    using C6_getversion [of ?u] u by blast
  moreover have "getversion ?e = ''2.0''"
    using C6_getversion [of ?e] e by simp
  moreover have "getversion ?n = ''2.0''"
    using C6_getversion [of ?n] n by simp
  ultimately show ?thesis by blast
qed

subsection \<open>The texts of the install reason and of the update state\<close>

lemma getattr_enumerated:
  assumes "\<forall>v. m_reason p \<noteq> IRE_OTHER v" and "\<forall>v. m_updatestate p \<noteq> USE_OTHER v"
    and "\<forall>v. a \<noteq> A_OTHER v" and "a \<noteq> A_BUILDDATE"
  shows "\<exists>s. getattr ctime p a = Inr s"
proof (cases a)
  case A_INSTALLSTATE
  with assms(1) show ?thesis
    by (cases "m_reason p") (simp_all add: getattr_def getreason_def)
next
  case A_UPDATESTATE
  with assms(2) show ?thesis
    by (cases "m_updatestate p") (simp_all add: getattr_def getupdatestate_def)
next
  case (A_OTHER v)
  with assms(3) show ?thesis by simp
next
  case A_BUILDDATE
  with assms(4) show ?thesis by simp
qed (simp_all add: getattr_def)

lemma getattr_builddate:
  "getattr ctime p A_BUILDDATE =
     (case ctime (m_builddate p) of
        None \<Rightarrow> Inl std_logic_error
      | Some timestr \<Rightarrow> Inr (take (length timestr - 1) timestr))"
  by (simp add: getattr_def getbuilddate_def substr_def split: option.split)

lemma getattr_builddate_text:
  "(\<exists>s. getattr ctime p A_BUILDDATE = Inr s) \<longleftrightarrow> ctime (m_builddate p) \<noteq> None"
  by (cases "ctime (m_builddate p)") (simp_all add: getattr_builddate)

lemma getattr_no_PcursesException:
  assumes "\<forall>v. m_reason p \<noteq> IRE_OTHER v" and "\<forall>v. m_updatestate p \<noteq> USE_OTHER v"
    and "\<forall>v. a \<noteq> A_OTHER v"
  shows "getattr ctime p a \<noteq> Inl (PcursesException msg)"
proof (cases "a = A_BUILDDATE")
  case True
  then show ?thesis
    by (cases "ctime (m_builddate p)") (simp_all add: getattr_builddate)
next
  case False
  with getattr_enumerated [OF assms] obtain s where "getattr ctime p a = Inr s"
    by blast
  then show ?thesis by simp
qed

lemma sample_ctime_epoch:
  "sample_ctime 0 = Some (''Thu Jan  1 00:00:00 1970'' @ [CHR 0x0A])"
  by code_simp

lemma sample_ctime_late: "sample_ctime 4611686018427387904 = None"
  by code_simp

lemma late_pkg_fields:
  "alpm_pkg_get_builddate late_pkg = 4611686018427387904"
  "alpm_pkg_get_name late_pkg = alpm_pkg_get_name sample_pkg"
  by (simp_all add: late_pkg_def)

lemma getattr_late_pkg:
  "getattr sample_ctime (Package_ctor sample_vercmp id late_pkg empty_db sample_storage)
     A_BUILDDATE = Inl std_logic_error"
  by (simp add: getattr_builddate ctor_builddate late_pkg_fields sample_ctime_late)

text \<open>
  C8. \<^verbatim>\<open>getreason\<close> and \<^verbatim>\<open>getupdatestate\<close> map each enumerator to its text, and each
  throws exactly when the stored value is not an enumerator. The constructor stores
  enumerators only, so on the Package it builds both return a text, \<^verbatim>\<open>getattr\<close> returns a
  text for every attribute that is an enumerator other than \<open>A_BUILDDATE\<close>, and it throws
  the exception of the code for none of them. For \<open>A_BUILDDATE\<close> it returns a text exactly
  when \<^verbatim>\<open>ctime\<close> renders the build date the package handle gave: built from the handle
  whose build date is \<open>2 ^ 62\<close>, which \<^verbatim>\<open>ctime\<close> does not render, the Package makes
  \<^verbatim>\<open>getattr\<close> throw \<^verbatim>\<open>std::logic_error\<close> for the enumerator \<open>A_BUILDDATE\<close>.
\<close>

theorem C8_texts:
  "(m_reason q = IRE_NOTINSTALLED \<longrightarrow> getreason q = Inr ''not installed'')
   \<and> (m_reason q = IRE_EXPLICIT \<longrightarrow> getreason q = Inr ''explicit'')
   \<and> (m_reason q = IRE_ASDEPS \<longrightarrow> getreason q = Inr ''as dependency'')
   \<and> (m_updatestate q = USE_NOTINSTALLED \<longrightarrow> getupdatestate q = Inr ''not installed'')
   \<and> (m_updatestate q = USE_UPDATEAVAILABLE \<longrightarrow> getupdatestate q = Inr ''update available'')
   \<and> (m_updatestate q = USE_UPTODATE \<longrightarrow> getupdatestate q = Inr ''up to date'')
   \<and> ((\<exists>e. getreason q = Inl e) \<longleftrightarrow> (\<exists>v. m_reason q = IRE_OTHER v))
   \<and> ((\<exists>e. getupdatestate q = Inl e) \<longleftrightarrow> (\<exists>v. m_updatestate q = USE_OTHER v))
   \<and> (p = Package_ctor vercmp dep_string pkg localdb this \<longrightarrow>
        (\<forall>v. m_reason p \<noteq> IRE_OTHER v) \<and> (\<forall>v. m_updatestate p \<noteq> USE_OTHER v)
        \<and> (\<exists>s. getreason p = Inr s) \<and> (\<exists>s. getupdatestate p = Inr s)
        \<and> (\<forall>a. (\<forall>v. a \<noteq> A_OTHER v) \<and> a \<noteq> A_BUILDDATE \<longrightarrow> (\<exists>s. getattr ctime p a = Inr s))
        \<and> (\<forall>a msg. (\<forall>v. a \<noteq> A_OTHER v) \<longrightarrow> getattr ctime p a \<noteq> Inl (PcursesException msg))
        \<and> ((\<exists>s. getattr ctime p A_BUILDDATE = Inr s)
             \<longleftrightarrow> ctime (alpm_pkg_get_builddate pkg) \<noteq> None))
   \<and> getattr sample_ctime (Package_ctor sample_vercmp id late_pkg empty_db sample_storage)
        A_BUILDDATE = Inl std_logic_error"
proof -
  have texts: "(m_reason q = IRE_NOTINSTALLED \<longrightarrow> getreason q = Inr ''not installed'')
   \<and> (m_reason q = IRE_EXPLICIT \<longrightarrow> getreason q = Inr ''explicit'')
   \<and> (m_reason q = IRE_ASDEPS \<longrightarrow> getreason q = Inr ''as dependency'')
   \<and> (m_updatestate q = USE_NOTINSTALLED \<longrightarrow> getupdatestate q = Inr ''not installed'')
   \<and> (m_updatestate q = USE_UPDATEAVAILABLE \<longrightarrow> getupdatestate q = Inr ''update available'')
   \<and> (m_updatestate q = USE_UPTODATE \<longrightarrow> getupdatestate q = Inr ''up to date'')"
    by (simp add: getreason_def getupdatestate_def)
  have r: "(\<exists>e. getreason q = Inl e) \<longleftrightarrow> (\<exists>v. m_reason q = IRE_OTHER v)"
    by (cases "m_reason q") (simp_all add: getreason_def)
  have u: "(\<exists>e. getupdatestate q = Inl e) \<longleftrightarrow> (\<exists>v. m_updatestate q = USE_OTHER v)"
    by (cases "m_updatestate q") (simp_all add: getupdatestate_def)
  have c: "(\<forall>v. m_reason p \<noteq> IRE_OTHER v) \<and> (\<forall>v. m_updatestate p \<noteq> USE_OTHER v)
        \<and> (\<exists>s. getreason p = Inr s) \<and> (\<exists>s. getupdatestate p = Inr s)
        \<and> (\<forall>a. (\<forall>v. a \<noteq> A_OTHER v) \<and> a \<noteq> A_BUILDDATE \<longrightarrow> (\<exists>s. getattr ctime p a = Inr s))
        \<and> (\<forall>a msg. (\<forall>v. a \<noteq> A_OTHER v) \<longrightarrow> getattr ctime p a \<noteq> Inl (PcursesException msg))
        \<and> ((\<exists>s. getattr ctime p A_BUILDDATE = Inr s)
             \<longleftrightarrow> ctime (alpm_pkg_get_builddate pkg) \<noteq> None)"
    if p: "p = Package_ctor vercmp dep_string pkg localdb this"
  proof -
    have pr: "\<forall>v. m_reason p \<noteq> IRE_OTHER v"
      unfolding p by (simp add: ctor_reason split: option.split)
    have pu: "\<forall>v. m_updatestate p \<noteq> USE_OTHER v"
      unfolding p by (simp add: ctor_updatestate split: option.split)
    have gr: "\<exists>s. getreason p = Inr s"
      using pr by (cases "m_reason p") (simp_all add: getreason_def)
    have gu: "\<exists>s. getupdatestate p = Inr s"
      using pu by (cases "m_updatestate p") (simp_all add: getupdatestate_def)
    have ga: "\<forall>a. (\<forall>v. a \<noteq> A_OTHER v) \<and> a \<noteq> A_BUILDDATE \<longrightarrow> (\<exists>s. getattr ctime p a = Inr s)"
      using getattr_enumerated [OF pr pu] by blast
    have gn: "\<forall>a msg. (\<forall>v. a \<noteq> A_OTHER v) \<longrightarrow> getattr ctime p a \<noteq> Inl (PcursesException msg)"
      using getattr_no_PcursesException [OF pr pu] by blast
    have "m_builddate p = alpm_pkg_get_builddate pkg"
      unfolding p by (rule ctor_builddate)
    then have gb: "(\<exists>s. getattr ctime p A_BUILDDATE = Inr s)
             \<longleftrightarrow> ctime (alpm_pkg_get_builddate pkg) \<noteq> None"
      using getattr_builddate_text [of ctime p] by simp
    from pr pu gr gu ga gn gb show ?thesis by blast
  qed
  from texts r u c getattr_late_pkg show ?thesis by blast
qed

theorem C8_texts_witness:
  "getreason (Package_ctor sample_vercmp id sample_pkg empty_db sample_storage)
     = Inr ''not installed''
   \<and> getupdatestate (Package_ctor sample_vercmp id sample_pkg empty_db sample_storage)
     = Inr ''not installed''
   \<and> getreason (Package_ctor sample_vercmp id sample_pkg
        (sample_db (sample_localpkg ''1.0'' ALPM_PKG_REASON_DEPEND)) sample_storage)
     = Inr ''as dependency''
   \<and> getupdatestate (Package_ctor sample_vercmp id sample_pkg
        (sample_db (sample_localpkg ''1.0'' ALPM_PKG_REASON_DEPEND)) sample_storage)
     = Inr ''update available''
   \<and> (\<exists>s. getattr sample_ctime (Package_ctor sample_vercmp id sample_pkg
        (sample_db (sample_localpkg ''1.0'' ALPM_PKG_REASON_DEPEND)) sample_storage)
        A_INSTALLSTATE = Inr s)
   \<and> sample_ctime (alpm_pkg_get_builddate sample_pkg) \<noteq> None
   \<and> (\<exists>s. getattr sample_ctime (Package_ctor sample_vercmp id sample_pkg
        (sample_db (sample_localpkg ''1.0'' ALPM_PKG_REASON_DEPEND)) sample_storage)
        A_BUILDDATE = Inr s)
   \<and> sample_ctime (alpm_pkg_get_builddate late_pkg) = None
   \<and> \<not> (\<exists>s. getattr sample_ctime
        (Package_ctor sample_vercmp id late_pkg empty_db sample_storage) A_BUILDDATE = Inr s)
   \<and> (\<exists>e. getreason sample_storage = Inl e)
   \<and> (\<exists>e. getupdatestate sample_storage = Inl e)"
proof -
  let ?n = "Package_ctor sample_vercmp id sample_pkg empty_db sample_storage"
  let ?d = "Package_ctor sample_vercmp id sample_pkg
        (sample_db (sample_localpkg ''1.0'' ALPM_PKG_REASON_DEPEND)) sample_storage"
  let ?l = "Package_ctor sample_vercmp id late_pkg empty_db sample_storage"
  have n: "m_reason ?n = IRE_NOTINSTALLED" "m_updatestate ?n = USE_NOTINSTALLED"
    by (simp_all add: ctor_reason ctor_updatestate sample_lookup_none)
  have d: "m_reason ?d = IRE_ASDEPS" "m_updatestate ?d = USE_UPDATEAVAILABLE"
    by (simp_all add: ctor_reason ctor_updatestate sample_lookup_some sample_pkg_version
        sample_localpkg_fields trimstr_sample_version)
  have s: "m_reason sample_storage = IRE_OTHER 99" "m_updatestate sample_storage = USE_OTHER 99"
    by (simp_all add: sample_storage_def)
  have e: "sample_ctime (alpm_pkg_get_builddate sample_pkg) \<noteq> None"
    by (simp add: sample_pkg_def sample_ctime_epoch)
  have l: "sample_ctime (alpm_pkg_get_builddate late_pkg) = None"
    by (simp add: late_pkg_fields sample_ctime_late)
  note at_d = C8_texts [where p = ?d and vercmp = sample_vercmp and dep_string = id
        and pkg = sample_pkg and this = sample_storage and ctime = sample_ctime
        and localdb = "sample_db (sample_localpkg ''1.0'' ALPM_PKG_REASON_DEPEND)"]
  note at_l = C8_texts [where p = ?l and vercmp = sample_vercmp and dep_string = id
        and pkg = late_pkg and this = sample_storage and ctime = sample_ctime
        and localdb = empty_db]
  have "getreason ?n = Inr ''not installed''" "getupdatestate ?n = Inr ''not installed''"
    using C8_texts [of ?n] n by blast+
  moreover have "getreason ?d = Inr ''as dependency''"
      "getupdatestate ?d = Inr ''update available''"
    using C8_texts [of ?d] d by blast+
  moreover have "\<exists>s. getattr sample_ctime ?d A_INSTALLSTATE = Inr s"
    using at_d by blast
  moreover have "\<exists>s. getattr sample_ctime ?d A_BUILDDATE = Inr s"
    using at_d e by blast
  moreover have "\<not> (\<exists>s. getattr sample_ctime ?l A_BUILDDATE = Inr s)"
    using at_l l by blast
  moreover have "\<exists>e. getreason sample_storage = Inl e" "\<exists>e. getupdatestate sample_storage = Inl e"
    using C8_texts [of sample_storage] s by blast+
  ultimately show ?thesis using e l by blast
qed

theorem C8_texts_counterexample:
  "m_builddate (Package_ctor sample_vercmp id late_pkg empty_db sample_storage)
     = 4611686018427387904
   \<and> sample_ctime 4611686018427387904 = None
   \<and> getreason (Package_ctor sample_vercmp id late_pkg empty_db sample_storage)
       = Inr ''not installed''
   \<and> getupdatestate (Package_ctor sample_vercmp id late_pkg empty_db sample_storage)
       = Inr ''not installed''
   \<and> getattr sample_ctime (Package_ctor sample_vercmp id late_pkg empty_db sample_storage)
        A_BUILDDATE = Inl std_logic_error
   \<and> \<not> (\<exists>s. getattr sample_ctime
        (Package_ctor sample_vercmp id late_pkg empty_db sample_storage) A_BUILDDATE = Inr s)"
  by (simp add: getattr_late_pkg ctor_builddate late_pkg_fields sample_ctime_late
      getreason_def getupdatestate_def ctor_reason ctor_updatestate sample_lookup_none)

subsection \<open>The two mutators\<close>

lemma setcolindex_accessors:
  "getname (setcolindex i p) = getname p"
  "getdesc (setcolindex i p) = getdesc p"
  "getversion (setcolindex i p) = getversion p"
  "getrepo (setcolindex i p) = getrepo p"
  "getreason (setcolindex i p) = getreason p"
  "getpackager (setcolindex i p) = getpackager p"
  "geturl (setcolindex i p) = geturl p"
  "getarch (setcolindex i p) = getarch p"
  "getlicenses (setcolindex i p) = getlicenses p"
  "getgroups (setcolindex i p) = getgroups p"
  "getdepends (setcolindex i p) = getdepends p"
  "getoptdepends (setcolindex i p) = getoptdepends p"
  "getconflicts (setcolindex i p) = getconflicts p"
  "getprovides (setcolindex i p) = getprovides p"
  "getreplaces (setcolindex i p) = getreplaces p"
  "getrequiredby (setcolindex i p) = getrequiredby p"
  "getoptionalfor (setcolindex i p) = getoptionalfor p"
  "getsignature (setcolindex i p) = getsignature p"
  "getsize (setcolindex i p) = getsize p"
  "getisize (setcolindex i p) = getisize p"
  "getupdatestate (setcolindex i p) = getupdatestate p"
  "getbuilddate ctime (setcolindex i p) = getbuilddate ctime p"
  "getop (setcolindex i p) = getop p"
  by (simp_all add: setcolindex_def getop_def getbuilddate_def getname_def getdesc_def
      getversion_def getrepo_def getreason_def getpackager_def geturl_def getarch_def
      getlicenses_def getgroups_def getdepends_def getoptdepends_def getconflicts_def
      getprovides_def getreplaces_def getrequiredby_def getoptionalfor_def
      getsignature_def getsize_def getisize_def getupdatestate_def)

lemma setop_accessors:
  "getname (setop oe p) = getname p"
  "getdesc (setop oe p) = getdesc p"
  "getversion (setop oe p) = getversion p"
  "getrepo (setop oe p) = getrepo p"
  "getreason (setop oe p) = getreason p"
  "getpackager (setop oe p) = getpackager p"
  "geturl (setop oe p) = geturl p"
  "getarch (setop oe p) = getarch p"
  "getlicenses (setop oe p) = getlicenses p"
  "getgroups (setop oe p) = getgroups p"
  "getdepends (setop oe p) = getdepends p"
  "getoptdepends (setop oe p) = getoptdepends p"
  "getconflicts (setop oe p) = getconflicts p"
  "getprovides (setop oe p) = getprovides p"
  "getreplaces (setop oe p) = getreplaces p"
  "getrequiredby (setop oe p) = getrequiredby p"
  "getoptionalfor (setop oe p) = getoptionalfor p"
  "getsignature (setop oe p) = getsignature p"
  "getsize (setop oe p) = getsize p"
  "getisize (setop oe p) = getisize p"
  "getupdatestate (setop oe p) = getupdatestate p"
  "getbuilddate ctime (setop oe p) = getbuilddate ctime p"
  "getcolindex (setop oe p) = getcolindex p"
  by (simp_all add: setop_def getcolindex_def getbuilddate_def getname_def getdesc_def
      getversion_def getrepo_def getreason_def getpackager_def geturl_def getarch_def
      getlicenses_def getgroups_def getdepends_def getoptdepends_def getconflicts_def
      getprovides_def getreplaces_def getrequiredby_def getoptionalfor_def
      getsignature_def getsize_def getisize_def getupdatestate_def)

lemma getattr_setcolindex: "getattr ctime (setcolindex i p) a = getattr ctime p a"
  by (cases a) (simp_all add: getattr_def setcolindex_accessors)

lemma getattr_setop: "getattr ctime (setop oe p) a = getattr ctime p a"
  by (cases a) (simp_all add: getattr_def setop_accessors)

lemma getoffattr_setcolindex: "getoffattr (setcolindex i p) a = getoffattr p a"
  by (cases a) (simp_all add: getoffattr_def setcolindex_def)

lemma getoffattr_setop: "getoffattr (setop oe p) a = getoffattr p a"
  by (cases a) (simp_all add: getoffattr_def setop_def)

lemma mutators_own_field:
  "getcolindex (setcolindex i p) = i" "getop (setop oe p) = oe"
  "(setcolindex i p)\<lparr>m_colindex := m_colindex p\<rparr> = p"
  "(setop oe p)\<lparr>op := op p\<rparr> = p"
  by (simp_all add: setcolindex_def setop_def getcolindex_def getop_def)

text \<open>
  C9. After \<^verbatim>\<open>setcolindex(i)\<close> \<^verbatim>\<open>getcolindex\<close> returns \<open>i\<close>, and after \<^verbatim>\<open>setop(oe)\<close>
  \<^verbatim>\<open>getop\<close> returns \<open>oe\<close>, for every value. Each mutator changes its own member only:
  putting the old value of that member back gives the Package before the call, and every
  other accessor, the two dispatchers included, returns what it returned before.
\<close>

theorem C9_mutators:
  "getcolindex (setcolindex i p) = i \<and> getop (setop oe p) = oe
   \<and> (setcolindex i p)\<lparr>m_colindex := m_colindex p\<rparr> = p
   \<and> (setop oe p)\<lparr>op := op p\<rparr> = p
   \<and> getop (setcolindex i p) = getop p \<and> getcolindex (setop oe p) = getcolindex p
   \<and> getattr ctime (setcolindex i p) a = getattr ctime p a
   \<and> getattr ctime (setop oe p) a = getattr ctime p a
   \<and> getoffattr (setcolindex i p) a = getoffattr p a
   \<and> getoffattr (setop oe p) a = getoffattr p a
   \<and> getname (setcolindex i p) = getname p \<and> getname (setop oe p) = getname p
   \<and> getdesc (setcolindex i p) = getdesc p \<and> getdesc (setop oe p) = getdesc p
   \<and> getversion (setcolindex i p) = getversion p \<and> getversion (setop oe p) = getversion p
   \<and> getrepo (setcolindex i p) = getrepo p \<and> getrepo (setop oe p) = getrepo p
   \<and> getreason (setcolindex i p) = getreason p \<and> getreason (setop oe p) = getreason p
   \<and> getpackager (setcolindex i p) = getpackager p \<and> getpackager (setop oe p) = getpackager p
   \<and> geturl (setcolindex i p) = geturl p \<and> geturl (setop oe p) = geturl p
   \<and> getbuilddate ctime (setcolindex i p) = getbuilddate ctime p
   \<and> getbuilddate ctime (setop oe p) = getbuilddate ctime p
   \<and> getarch (setcolindex i p) = getarch p \<and> getarch (setop oe p) = getarch p
   \<and> getlicenses (setcolindex i p) = getlicenses p \<and> getlicenses (setop oe p) = getlicenses p
   \<and> getgroups (setcolindex i p) = getgroups p \<and> getgroups (setop oe p) = getgroups p
   \<and> getdepends (setcolindex i p) = getdepends p \<and> getdepends (setop oe p) = getdepends p
   \<and> getoptdepends (setcolindex i p) = getoptdepends p
   \<and> getoptdepends (setop oe p) = getoptdepends p
   \<and> getconflicts (setcolindex i p) = getconflicts p \<and> getconflicts (setop oe p) = getconflicts p
   \<and> getprovides (setcolindex i p) = getprovides p \<and> getprovides (setop oe p) = getprovides p
   \<and> getreplaces (setcolindex i p) = getreplaces p \<and> getreplaces (setop oe p) = getreplaces p
   \<and> getrequiredby (setcolindex i p) = getrequiredby p
   \<and> getrequiredby (setop oe p) = getrequiredby p
   \<and> getoptionalfor (setcolindex i p) = getoptionalfor p
   \<and> getoptionalfor (setop oe p) = getoptionalfor p
   \<and> getsignature (setcolindex i p) = getsignature p \<and> getsignature (setop oe p) = getsignature p
   \<and> getsize (setcolindex i p) = getsize p \<and> getsize (setop oe p) = getsize p
   \<and> getisize (setcolindex i p) = getisize p \<and> getisize (setop oe p) = getisize p
   \<and> getupdatestate (setcolindex i p) = getupdatestate p
   \<and> getupdatestate (setop oe p) = getupdatestate p"
  by (simp add: mutators_own_field setcolindex_accessors setop_accessors
      getattr_setcolindex getattr_setop getoffattr_setcolindex getoffattr_setop)

subsection \<open>Conversion to binary32\<close>

lemma bit_length_le_iff: "bit_length n \<le> k \<longleftrightarrow> n < 2 ^ k"
proof (induction k arbitrary: n)
  case 0
  show ?case by (subst bit_length.simps) simp
next
  case (Suc k)
  have "bit_length n \<le> Suc k \<longleftrightarrow> n = 0 \<or> bit_length (n div 2) \<le> k"
    by (subst bit_length.simps) simp
  also have "\<dots> \<longleftrightarrow> n = 0 \<or> n div 2 < 2 ^ k"
    by (simp only: Suc.IH)
  also have "\<dots> \<longleftrightarrow> n < 2 ^ Suc k"
    by auto
  finally show ?case .
qed

lemma bit_length_upper: "n < 2 ^ bit_length n"
  using bit_length_le_iff [of n "bit_length n"] by simp

lemma bit_length_lower: "0 < bit_length n \<Longrightarrow> 2 ^ (bit_length n - 1) \<le> n"
  using bit_length_le_iff [of n "bit_length n - 1"] by (simp add: not_less [symmetric])

lemma bit_length_mono: "a \<le> b \<Longrightarrow> bit_length a \<le> bit_length b"
  using bit_length_le_iff [of a "bit_length b"] bit_length_upper [of b] by simp

lemma bit_length_eqI: "2 ^ k \<le> n \<Longrightarrow> n < 2 ^ Suc k \<Longrightarrow> bit_length n = Suc k"
  using bit_length_le_iff [of n "Suc k"] bit_length_le_iff [of n k] by simp

lemma rne_unfold:
  "round_nearest_even e a =
     (if 2 ^ e < 2 * (a mod 2 ^ e) \<or> (2 * (a mod 2 ^ e) = 2 ^ e \<and> odd (a div 2 ^ e))
      then a div 2 ^ e + 1 else a div 2 ^ e) * 2 ^ e"
  by (simp add: round_nearest_even_def Let_def)

lemma rne_zero: "round_nearest_even 0 a = a"
  by (simp add: rne_unfold)

lemma rne_lower: "a div 2 ^ e * 2 ^ e \<le> round_nearest_even e a"
  by (simp add: rne_unfold)

lemma rne_upper: "round_nearest_even e a \<le> (a div 2 ^ e + 1) * 2 ^ e"
  by (simp add: rne_unfold)

lemma rne_error:
  "2 * a \<le> 2 * round_nearest_even e a + 2 ^ e"
  "2 * round_nearest_even e a \<le> 2 * a + 2 ^ e"
proof -
  define P :: nat where "P = 2 ^ e"
  define q where "q = a div P"
  define r where "r = a mod P"
  have a: "a = q * P + r"
    by (simp add: q_def r_def)
  have r: "r < P"
    by (simp add: r_def P_def)
  have rne: "round_nearest_even e a =
      (if P < 2 * r \<or> (2 * r = P \<and> odd q) then q * P + P else q * P)"
    by (simp add: rne_unfold P_def q_def r_def)
  show "2 * a \<le> 2 * round_nearest_even e a + 2 ^ e"
    unfolding rne P_def [symmetric] using a r by (auto split: if_splits)
  show "2 * round_nearest_even e a \<le> 2 * a + 2 ^ e"
    unfolding rne P_def [symmetric] using a r by (auto split: if_splits)
qed

lemma rne_mono:
  assumes "a \<le> b"
  shows "round_nearest_even e a \<le> round_nearest_even e b"
proof -
  define P :: nat where "P = 2 ^ e"
  have P: "0 < P" by (simp add: P_def)
  define up where "up x \<longleftrightarrow> P < 2 * (x mod P) \<or> (2 * (x mod P) = P \<and> odd (x div P))" for x
  have rne: "round_nearest_even e x = (if up x then x div P + 1 else x div P) * P" for x
    by (simp add: rne_unfold P_def up_def)
  have q: "a div P \<le> b div P"
    using assms by (rule div_le_mono)
  have "(if up a then a div P + 1 else a div P) \<le> (if up b then b div P + 1 else b div P)"
  proof (cases "a div P = b div P")
    case True
    have "a div P * P + a mod P \<le> b div P * P + b mod P"
      unfolding div_mult_mod_eq by (rule assms)
    then have "a mod P \<le> b mod P"
      unfolding True by (rule add_le_imp_le_left)
    with True have "up a \<Longrightarrow> up b"
      unfolding up_def by auto
    with True show ?thesis by auto
  next
    case False
    with q have "a div P + 1 \<le> b div P" by simp
    then show ?thesis by auto
  qed
  then show ?thesis
    unfolding rne by (rule mult_le_mono1)
qed

lemma rne_nearest:
  assumes lo: "2 * a < 2 * (m * 2 ^ e) + 2 ^ e" and hi: "2 * (m * 2 ^ e) < 2 * a + 2 ^ e"
  shows "round_nearest_even e a = m * 2 ^ e"
proof -
  define P :: nat where "P = 2 ^ e"
  define q where "q = a div P"
  define r where "r = a mod P"
  have P: "0 < P" by (simp add: P_def)
  have a: "a = q * P + r"
    by (simp add: q_def r_def)
  have r: "r < P"
    by (simp add: r_def P)
  have rne: "round_nearest_even e a =
      (if P < 2 * r \<or> (2 * r = P \<and> odd q) then (q + 1) * P else q * P)"
    by (simp add: rne_unfold P_def q_def r_def)
  from lo have lo': "2 * (q * P) + 2 * r < 2 * (m * P) + P"
    unfolding P_def [symmetric] a by simp
  from hi have hi': "2 * (m * P) < 2 * (q * P) + 2 * r + P"
    unfolding P_def [symmetric] a by simp
  have "q * P < (m + 1) * P"
    using lo' by simp
  then have "q < m + 1"
    unfolding mult_less_cancel2 by simp
  then have qm: "q \<le> m" by simp
  have "m * P < (q + 2) * P"
    using hi' r by simp
  then have "m < q + 2"
    unfolding mult_less_cancel2 by simp
  then have mq: "m \<le> q + 1" by simp
  from qm mq consider "m = q" | "m = q + 1" by arith
  then show ?thesis
  proof cases
    case 1
    with lo' have "2 * r < P" by simp
    with 1 show ?thesis
      unfolding rne P_def [symmetric] by simp
  next
    case 2
    with hi' have "P < 2 * r" by simp
    with 2 show ?thesis
      unfolding rne P_def [symmetric] by simp
  qed
qed

lemma rne_multiple: "round_nearest_even e (m * 2 ^ e) = m * 2 ^ e"
  by (simp add: rne_unfold)

lemma b32_small: "a < 2 ^ 24 \<Longrightarrow> binary32_of_nat a = a"
  using bit_length_le_iff [of a 24] by (simp add: binary32_of_nat_def rne_zero)

lemma b32_error:
  "2 * a \<le> 2 * binary32_of_nat a + 2 ^ (bit_length a - 24)"
  "2 * binary32_of_nat a \<le> 2 * a + 2 ^ (bit_length a - 24)"
  unfolding binary32_of_nat_def by (rule rne_error)+

lemma binade_bounds:
  assumes "bit_length a = e + 24"
  shows "2 ^ (e + 23) \<le> a" and "a < 2 ^ (e + 24)"
proof -
  have "\<not> bit_length a \<le> e + 23"
    unfolding assms by simp
  then have "\<not> a < 2 ^ (e + 23)"
    unfolding bit_length_le_iff .
  then show "2 ^ (e + 23) \<le> a"
    by (simp only: not_less)
  have "bit_length a \<le> e + 24"
    unfolding assms by simp
  then show "a < 2 ^ (e + 24)"
    unfolding bit_length_le_iff .
qed

lemma div_in_binade:
  assumes "bit_length a = e + 24"
  shows "2 ^ 23 \<le> a div 2 ^ e" and "a div 2 ^ e < 2 ^ 24"
proof -
  have "(2::nat) ^ 23 * 2 ^ e = 2 ^ (e + 23)"
    by (simp add: power_add)
  also have "\<dots> \<le> a"
    by (rule binade_bounds(1) [OF assms])
  finally show "2 ^ 23 \<le> a div 2 ^ e"
    by (simp only: less_eq_div_iff_mult_less_eq zero_less_power zero_less_numeral)
  have "a < 2 ^ (e + 24)"
    by (rule binade_bounds(2) [OF assms])
  also have "(2::nat) ^ (e + 24) = 2 ^ 24 * 2 ^ e"
    by (simp add: power_add)
  finally show "a div 2 ^ e < 2 ^ 24"
    by (rule less_mult_imp_div_less)
qed

lemma b32_binade:
  assumes "bit_length a = e + 24"
  shows "2 ^ (e + 23) \<le> binary32_of_nat a" and "binary32_of_nat a \<le> 2 ^ (e + 24)"
proof -
  have r: "binary32_of_nat a = round_nearest_even e a"
    by (simp add: binary32_of_nat_def assms)
  have "(2::nat) ^ (e + 23) = 2 ^ 23 * 2 ^ e"
    by (simp add: power_add)
  also have "\<dots> \<le> a div 2 ^ e * 2 ^ e"
    using div_in_binade(1) [OF assms] by (rule mult_le_mono1)
  also have "\<dots> \<le> round_nearest_even e a"
    by (rule rne_lower)
  finally show "2 ^ (e + 23) \<le> binary32_of_nat a"
    unfolding r .
  have "a div 2 ^ e + 1 \<le> 2 ^ 24"
    using div_in_binade(2) [OF assms] by simp
  have "round_nearest_even e a \<le> (a div 2 ^ e + 1) * 2 ^ e"
    by (rule rne_upper)
  also have "\<dots> \<le> 2 ^ 24 * 2 ^ e"
    using \<open>a div 2 ^ e + 1 \<le> 2 ^ 24\<close> by (rule mult_le_mono1)
  also have "\<dots> = 2 ^ (e + 24)"
    by (simp add: power_add)
  finally show "binary32_of_nat a \<le> 2 ^ (e + 24)"
    unfolding r .
qed

lemma b32_mono:
  assumes "a \<le> b"
  shows "binary32_of_nat a \<le> binary32_of_nat b"
proof (cases "bit_length b \<le> 24")
  case True
  then have b: "b < 2 ^ 24" by (simp add: bit_length_le_iff)
  with assms have "a < 2 ^ 24" by simp
  with b assms show ?thesis by (simp only: b32_small)
next
  case False
  define eb where "eb = bit_length b - 24"
  have lb: "bit_length b = eb + 24"
    using False by (simp add: eb_def)
  show ?thesis
  proof (cases "bit_length a = bit_length b")
    case True
    then show ?thesis
      unfolding binary32_of_nat_def using rne_mono [OF assms] by simp
  next
    case False
    with bit_length_mono [OF assms] have la: "bit_length a \<le> eb + 23"
      unfolding lb by simp
    have "binary32_of_nat a \<le> 2 ^ (eb + 23)"
    proof (cases "bit_length a \<le> 24")
      case True
      then have "a < 2 ^ 24" by (simp add: bit_length_le_iff)
      then have "binary32_of_nat a = a" by (rule b32_small)
      moreover have "a < 2 ^ (eb + 23)"
        using la unfolding bit_length_le_iff .
      ultimately show ?thesis by simp
    next
      case False
      define ea where "ea = bit_length a - 24"
      have la': "bit_length a = ea + 24"
        using False by (simp add: ea_def)
      have "binary32_of_nat a \<le> 2 ^ (ea + 24)"
        by (rule b32_binade(2) [OF la'])
      also have "(2::nat) ^ (ea + 24) \<le> 2 ^ (eb + 23)"
        using la unfolding la' by (intro power_increasing) simp_all
      finally show ?thesis .
    qed
    also have "\<dots> \<le> binary32_of_nat b"
      by (rule b32_binade(1) [OF lb])
    finally show ?thesis .
  qed
qed

lemma b32_fix:
  assumes "2 ^ (bit_length f - 24) dvd f"
  shows "binary32_of_nat f = f"
proof -
  from assms obtain m where "f = m * 2 ^ (bit_length f - 24)"
    by (auto simp: dvd_def mult.commute)
  then have "round_nearest_even (bit_length f - 24) f = f"
    using rne_multiple [of "bit_length f - 24" m] by simp
  then show ?thesis
    by (simp add: binary32_of_nat_def)
qed

lemma b32_representable: "2 ^ (bit_length (binary32_of_nat a) - 24) dvd binary32_of_nat a"
proof (cases "bit_length a \<le> 24")
  case True
  then have "a < 2 ^ 24" by (simp add: bit_length_le_iff)
  with True show ?thesis by (simp add: b32_small)
next
  case False
  define e where "e = bit_length a - 24"
  have la: "bit_length a = e + 24"
    using False by (simp add: e_def)
  define f where "f = binary32_of_nat a"
  have f: "f = round_nearest_even e a"
    by (simp add: f_def binary32_of_nat_def e_def)
  have dv: "2 ^ e dvd f"
    unfolding f rne_unfold by simp
  have lo: "2 ^ (e + 23) \<le> f" and hi: "f \<le> 2 ^ (e + 24)"
    unfolding f_def by (rule b32_binade [OF la])+
  show ?thesis
  proof (cases "f = 2 ^ (e + 24)")
    case True
    have "bit_length f = Suc (e + 24)"
      by (rule bit_length_eqI) (simp_all add: True)
    then have "bit_length f - 24 = Suc e" by simp
    moreover have "(2::nat) ^ Suc e dvd 2 ^ (e + 24)"
      by (rule le_imp_power_dvd) simp
    ultimately show ?thesis
      unfolding f_def [symmetric] using True by simp
  next
    case False
    have eq: "Suc (e + 23) = e + 24" by simp
    have "f < 2 ^ (e + 24)"
      using hi False by (rule le_neq_trans)
    then have "f < 2 ^ Suc (e + 23)"
      unfolding eq .
    with lo have "bit_length f = Suc (e + 23)"
      by (rule bit_length_eqI)
    then have "bit_length f - 24 = e" by simp
    with dv show ?thesis
      unfolding f_def [symmetric] by simp
  qed
qed

lemma b32_idem: "binary32_of_nat (binary32_of_nat a) = binary32_of_nat a"
  by (rule b32_fix) (rule b32_representable)

subsection \<open>The loop of size2str\<close>

lemma unitssize_eq: "unitssize = 5"
  by (simp add: unitssize_def units_def)

lemma size2str_loop_step:
  "1024 < fsize \<Longrightarrow> currentunit < 4 \<Longrightarrow>
   size2str_loop fsize currentunit = size2str_loop (fsize / 1024) (currentunit + 1)"
  by (subst size2str_loop.simps) (simp add: unitssize_eq)

lemma size2str_loop_stop:
  "\<not> (1024 < fsize \<and> currentunit < 4) \<Longrightarrow>
   size2str_loop fsize currentunit = (fsize, currentunit)"
  by (subst size2str_loop.simps) (auto simp: unitssize_eq)

lemma size2str_loop_invariant:
  assumes "size2str_loop f c = (v, k)" and "c \<le> 4"
  shows "c \<le> k \<and> k \<le> 4 \<and> v = f / 1024 ^ (k - c)
         \<and> (\<forall>j<k - c. 1024 < f / 1024 ^ j) \<and> (k < 4 \<longrightarrow> v \<le> 1024)"
  using assms
proof (induction f c arbitrary: v k rule: size2str_loop.induct)
  case (1 fsize currentunit)
  show ?case
  proof (cases "1024 < fsize \<and> currentunit < 4")
    case True
    then have cond: "1024 < fsize \<and> currentunit < unitssize - 1"
      by (simp add: unitssize_eq)
    from True "1.prems"(1) have res: "size2str_loop (fsize / 1024) (currentunit + 1) = (v, k)"
      by (simp add: size2str_loop_step)
    from True have "currentunit + 1 \<le> 4" by simp
    from "1.IH" [OF cond res this]
    have ck: "currentunit + 1 \<le> k" and k: "k \<le> 4"
      and v: "v = fsize / 1024 / 1024 ^ (k - (currentunit + 1))"
      and gt: "\<forall>j<k - (currentunit + 1). 1024 < fsize / 1024 / 1024 ^ j"
      and le: "k < 4 \<longrightarrow> v \<le> 1024"
      by blast+
    from ck have kc: "k - currentunit = Suc (k - (currentunit + 1))"
      by simp
    have "1024 < fsize / 1024 ^ j" if "j < k - currentunit" for j
    proof (cases j)
      case 0
      with True show ?thesis by simp
    next
      case (Suc i)
      with that kc have "i < k - (currentunit + 1)" by simp
      with gt have "1024 < fsize / 1024 / 1024 ^ i" by blast
      with Suc show ?thesis by simp
    qed
    moreover have "v = fsize / 1024 ^ (k - currentunit)"
      unfolding kc v by simp
    ultimately show ?thesis
      using ck k le by simp
  next
    case False
    with "1.prems"(1) have "v = fsize" "k = currentunit"
      by (simp_all add: size2str_loop_stop)
    with False "1.prems"(2) show ?thesis by auto
  qed
qed

subsection \<open>The printed number\<close>

lemma digit_char_digit: "d < 10 \<Longrightarrow> digit_char d \<in> set ''0123456789''"
  unfolding digit_char_def by (rule nth_mem) simp

lemma show_nat_less: "n < 10 \<Longrightarrow> show_nat n = [digit_char n]"
  by (subst show_nat.simps) simp

lemma show_nat_more: "10 \<le> n \<Longrightarrow> show_nat n = show_nat (n div 10) @ [digit_char (n mod 10)]"
  by (subst show_nat.simps) simp

lemma show_nat_digits: "show_nat n \<noteq> [] \<and> set (show_nat n) \<subseteq> set ''0123456789''"
proof (induction n rule: show_nat.induct)
  case (1 n)
  show ?case
  proof (cases "n < 10")
    case True
    then show ?thesis
      using digit_char_digit [of n] by (simp add: show_nat_less)
  next
    case False
    have "n mod 10 < 10" by simp
    then have "digit_char (n mod 10) \<in> set ''0123456789''"
      by (rule digit_char_digit)
    with False "1.IH" show ?thesis
      by (simp add: show_nat_more)
  qed
qed

lemma fixed2_shape:
  "\<exists>sign ds d1 d2. fixed2 x = sign @ ds @ ''.'' @ [d1, d2]
     \<and> (sign = '''' \<or> sign = ''-'') \<and> ds \<noteq> [] \<and> set ds \<subseteq> set ''0123456789''
     \<and> d1 \<in> set ''0123456789'' \<and> d2 \<in> set ''0123456789''"
proof -
  define n where "n = nat (round_half_even (\<bar>x\<bar> * 100))"
  have f: "fixed2 x = (if x < 0 then ''-'' else []) @ show_nat (n div 100) @ ''.'' @
         [digit_char (n mod 100 div 10), digit_char (n mod 10)]"
    by (simp add: fixed2_def n_def Let_def)
  have "n mod 100 div 10 < 10" by simp
  then have d1: "digit_char (n mod 100 div 10) \<in> set ''0123456789''"
    by (rule digit_char_digit)
  have "n mod 10 < 10" by simp
  then have d2: "digit_char (n mod 10) \<in> set ''0123456789''"
    by (rule digit_char_digit)
  have s: "(if x < 0 then ''-'' else []) = '''' \<or> (if x < 0 then ''-'' else []) = ''-''"
    by simp
  from f s d1 d2 show_nat_digits [of "n div 100"] show ?thesis
    by blast
qed

lemma round_half_even_of_int: "round_half_even (of_int m) = m"
  by (simp add: round_half_even_def)

lemma fixed2_of_nat:
  "fixed2 (of_nat m) = show_nat m @ ''.00''"
proof -
  have "\<bar>of_nat m :: rat\<bar> * 100 = of_int (int m * 100)"
    by simp
  then have "round_half_even (\<bar>of_nat m :: rat\<bar> * 100) = int m * 100"
    by (simp only: round_half_even_of_int)
  then have n: "nat (round_half_even (\<bar>of_nat m :: rat\<bar> * 100)) = m * 100"
    by (simp add: nat_mult_distrib)
  show ?thesis
    unfolding fixed2_def n Let_def by (simp add: digit_char_def)
qed

lemma show_nat_values:
  "show_nat 0 = ''0''" "show_nat (Suc 0) = ''1''" "show_nat 2 = ''2''"
  "show_nat 1024 = ''1024''"
  by (simp_all add: show_nat_less show_nat_more digit_char_def)

lemma fixed2_values:
  "fixed2 0 = ''0.00''" "fixed2 2 = ''2.00''" "fixed2 1024 = ''1024.00''" "fixed2 1 = ''1.00''"
  using fixed2_of_nat [of 0] fixed2_of_nat [of 2] fixed2_of_nat [of 1024] fixed2_of_nat [of 1]
  by (simp_all add: show_nat_values)

lemma fixed2_three_halves: "fixed2 (3 / 2) = ''1.50''"
proof -
  have "\<bar>3 / 2 :: rat\<bar> * 100 = of_int 150"
    by simp
  then have "round_half_even (\<bar>3 / 2 :: rat\<bar> * 100) = 150"
    by (simp only: round_half_even_of_int)
  then show ?thesis
    unfolding fixed2_def Let_def by (simp add: show_nat_values digit_char_def)
qed

subsection \<open>The conversion on integers\<close>

lemma to_float_nonneg: "0 \<le> n \<Longrightarrow> to_float n = of_nat (binary32_of_nat (nat n))"
  by (cases "n = 0") (simp_all add: to_float_def b32_small)

lemma to_float_neg: "n < 0 \<Longrightarrow> to_float n = - of_nat (binary32_of_nat (nat (- n)))"
  by (simp add: to_float_def)

lemma to_float_small: "0 \<le> n \<Longrightarrow> n < 2 ^ 24 \<Longrightarrow> to_float n = of_int n"
proof -
  assume n: "0 \<le> n" "n < 2 ^ 24"
  then have "nat n < 2 ^ 24" by simp
  then have "binary32_of_nat (nat n) = nat n" by (rule b32_small)
  with n show ?thesis by (simp add: to_float_nonneg)
qed

lemma to_float_nonpos: "n \<le> 0 \<Longrightarrow> to_float n \<le> 0"
  by (cases "n = 0") (simp_all add: to_float_def)

lemma to_float_mono: "0 \<le> m \<Longrightarrow> m \<le> n \<Longrightarrow> to_float m \<le> to_float n"
  using b32_mono [of "nat m" "nat n"] by (simp add: to_float_nonneg)

lemma bit_length_values:
  "bit_length 1099511627776 = 41"
  "bit_length 1099511693312 = 41"
  "bit_length 1099511693313 = 41"
  by (rule bit_length_eqI [where k = 40, simplified]; simp)+

lemma binary32_values:
  "binary32_of_nat 1099511627776 = 1099511627776"
  "binary32_of_nat 1099511693312 = 1099511627776"
  "binary32_of_nat 1099511693313 = 1099511758848"
  by (simp_all add: binary32_of_nat_def bit_length_values rne_unfold)

subsection \<open>size2str\<close>

lemma size2str_float:
  "to_float (sint b) = f \<Longrightarrow> size2str_loop f 0 = (v, k) \<Longrightarrow>
   size2str b = fixed2 v @ '' '' @ units ! k"
  by (simp add: size2str_def)

lemma size2str_loop_values:
  "size2str_loop 0 0 = (0, 0)"
  "size2str_loop 1536 0 = (3 / 2, 1)"
  "size2str_loop 2097152 0 = (2, 2)"
  "size2str_loop 1099511627776 0 = (1024, 3)"
  by (simp_all add: size2str_loop_step size2str_loop_stop)

lemma units_values:
  "units ! 0 = ''B''" "units ! Suc 0 = ''KB''" "units ! 2 = ''MB''" "units ! 3 = ''GB''"
  "units ! 4 = ''TB''"
  by (simp_all add: units_def)

lemma size2str_examples:
  "size2str 0 = ''0.00 B''"
  "size2str 1536 = ''1.50 KB''"
  "size2str 2097152 = ''2.00 MB''"
  "size2str 1099511627776 = ''1024.00 GB''"
proof -
  have "to_float (sint (0 :: off_t)) = 0"
    by (simp add: to_float_def)
  from size2str_float [OF this size2str_loop_values(1)]
  show "size2str 0 = ''0.00 B''"
    by (simp add: fixed2_values units_values)
  have "to_float (sint (1536 :: off_t)) = 1536"
    by (simp add: to_float_small)
  from size2str_float [OF this size2str_loop_values(2)]
  show "size2str 1536 = ''1.50 KB''"
    by (simp add: fixed2_three_halves units_values)
  have "to_float (sint (2097152 :: off_t)) = 2097152"
    by (simp add: to_float_small)
  from size2str_float [OF this size2str_loop_values(3)]
  show "size2str 2097152 = ''2.00 MB''"
    by (simp add: fixed2_values units_values)
  have "to_float (sint (1099511627776 :: off_t)) = 1099511627776"
    by (simp add: to_float_nonneg binary32_values)
  from size2str_float [OF this size2str_loop_values(4)]
  show "size2str 1099511627776 = ''1024.00 GB''"
    by (simp add: fixed2_values units_values)
qed

lemma to_float_above_tb:
  assumes "1024 ^ 4 + 65536 < n"
  shows "1024 ^ 4 < to_float n"
proof -
  from assms have n: "0 \<le> n" and "1099511693313 \<le> nat n"
    by simp_all
  then have "binary32_of_nat 1099511693313 \<le> binary32_of_nat (nat n)"
    by (intro b32_mono)
  then have "1099511758848 \<le> binary32_of_nat (nat n)"
    by (simp only: binary32_values)
  then have "(1099511758848 :: rat) \<le> of_nat (binary32_of_nat (nat n))"
    by (metis of_nat_le_iff of_nat_numeral)
  then show ?thesis
    by (simp add: to_float_nonneg [OF n])
qed

lemma to_float_at_tb:
  assumes "1024 ^ 4 \<le> n" and "n \<le> 1024 ^ 4 + 65536"
  shows "to_float n = 1099511627776"
proof -
  from assms have n: "0 \<le> n" and lo: "1099511627776 \<le> nat n" and hi: "nat n \<le> 1099511693312"
    by simp_all
  have "binary32_of_nat 1099511627776 \<le> binary32_of_nat (nat n)"
    using lo by (rule b32_mono)
  moreover have "binary32_of_nat (nat n) \<le> binary32_of_nat 1099511693312"
    using hi by (rule b32_mono)
  ultimately have "binary32_of_nat (nat n) = 1099511627776"
    by (simp only: binary32_values)
  then show ?thesis
    by (simp add: to_float_nonneg [OF n])
qed

lemma units_member: "k \<le> 4 \<Longrightarrow> units ! k \<in> set [''B'', ''KB'', ''MB'', ''GB'', ''TB'']"
proof -
  assume "k \<le> 4"
  then have "k = 0 \<or> k = 1 \<or> k = 2 \<or> k = 3 \<or> k = 4"
    by arith
  then show ?thesis
    by (auto simp: units_def)
qed

lemma unit_tb:
  assumes k: "k \<le> 4" and v: "v = f / 1024 ^ k" and le: "k < 4 \<longrightarrow> v \<le> 1024"
    and f: "1024 ^ 4 < (f :: rat)"
  shows "k = 4"
proof (rule ccontr)
  assume "k \<noteq> 4"
  with k have "k = 0 \<or> k = 1 \<or> k = 2 \<or> k = 3"
    by arith
  moreover from \<open>k \<noteq> 4\<close> k le have "f / 1024 ^ k \<le> 1024"
    by (simp add: v)
  ultimately show False
    using f by auto
qed

text \<open>
  C1, amended. Let \<open>(v, k)\<close> be the value and the unit index at the exit of the loop of
  \<^verbatim>\<open>size2str(b)\<close>. Then \<open>k\<close> is at most 4, \<open>v\<close> is the binary32 value of \<open>b\<close> divided \<open>k\<close>
  times by 1024, every value before the last division was above 1024, and \<open>v\<close> is at most
  1024 unless the last unit was reached. The result is \<open>v\<close> printed with two decimals, a
  space, and the \<open>k\<close>-th of B, KB, MB, GB, TB; the printed number is an optional minus sign,
  at least one digit, a point and two digits. \<^verbatim>\<open>size2str(0)\<close> is \<open>"0.00 B"\<close>,
  \<^verbatim>\<open>size2str(1536)\<close> is \<open>"1.50 KB"\<close>, \<^verbatim>\<open>size2str(2*1024*1024)\<close> is \<open>"2.00 MB"\<close>. For every
  \<open>b\<close> above \<open>1024^4 + 65536\<close> the unit is TB; from \<open>1024^4\<close> to \<open>1024^4 + 65536\<close> the
  binary32 value is \<open>1024^4\<close>, which is not above 1024 after three divisions, and the result
  is \<open>"1024.00 GB"\<close>.
\<close>

theorem C1_size2str:
  "(size2str_loop (to_float (sint b)) 0 = (v, k) \<longrightarrow>
      k \<le> 4
      \<and> v = to_float (sint b) / 1024 ^ k
      \<and> (\<forall>j<k. 1024 < to_float (sint b) / 1024 ^ j)
      \<and> (k < 4 \<longrightarrow> v \<le> 1024)
      \<and> size2str b = fixed2 v @ '' '' @ units ! k
      \<and> units ! k \<in> set [''B'', ''KB'', ''MB'', ''GB'', ''TB'']
      \<and> (1024 ^ 4 + 65536 < sint b \<longrightarrow> units ! k = ''TB'')
      \<and> (1024 ^ 4 \<le> sint b \<and> sint b \<le> 1024 ^ 4 + 65536 \<longrightarrow> size2str b = ''1024.00 GB''))
   \<and> (\<exists>sign ds d1 d2. fixed2 x = sign @ ds @ ''.'' @ [d1, d2]
        \<and> (sign = '''' \<or> sign = ''-'') \<and> ds \<noteq> [] \<and> set ds \<subseteq> set ''0123456789''
        \<and> d1 \<in> set ''0123456789'' \<and> d2 \<in> set ''0123456789'')
   \<and> size2str 0 = ''0.00 B''
   \<and> size2str 1536 = ''1.50 KB''
   \<and> size2str (2 * 1024 * 1024) = ''2.00 MB''"
proof -
  have loop: "k \<le> 4
      \<and> v = to_float (sint b) / 1024 ^ k
      \<and> (\<forall>j<k. 1024 < to_float (sint b) / 1024 ^ j)
      \<and> (k < 4 \<longrightarrow> v \<le> 1024)
      \<and> size2str b = fixed2 v @ '' '' @ units ! k
      \<and> units ! k \<in> set [''B'', ''KB'', ''MB'', ''GB'', ''TB'']
      \<and> (1024 ^ 4 + 65536 < sint b \<longrightarrow> units ! k = ''TB'')
      \<and> (1024 ^ 4 \<le> sint b \<and> sint b \<le> 1024 ^ 4 + 65536 \<longrightarrow> size2str b = ''1024.00 GB'')"
    if res: "size2str_loop (to_float (sint b)) 0 = (v, k)"
  proof -
    note inv = size2str_loop_invariant [OF res le0, unfolded diff_zero]
    from inv have k: "k \<le> 4" and v: "v = to_float (sint b) / 1024 ^ k"
      and gt: "\<forall>j<k. 1024 < to_float (sint b) / 1024 ^ j" and le: "k < 4 \<longrightarrow> v \<le> 1024"
      by blast+
    have str: "size2str b = fixed2 v @ '' '' @ units ! k"
      using res by (rule size2str_float [OF refl])
    have tb: "units ! k = ''TB''" if "1024 ^ 4 + 65536 < sint b"
    proof -
      from that have "1024 ^ 4 < to_float (sint b)"
        by (rule to_float_above_tb)
      with k v le have "k = 4"
        by (rule unit_tb)
      then show ?thesis
        by (simp add: units_values)
    qed
    have gb: "size2str b = ''1024.00 GB''"
      if "1024 ^ 4 \<le> sint b \<and> sint b \<le> 1024 ^ 4 + 65536"
    proof -
      from that have "to_float (sint b) = 1099511627776"
        by (intro to_float_at_tb) simp_all
      from size2str_float [OF this size2str_loop_values(4)] show ?thesis
        by (simp add: fixed2_values units_values)
    qed
    from k v gt le str units_member [OF k] tb gb show ?thesis
      by blast
  qed
  have "size2str (2 * 1024 * 1024) = ''2.00 MB''"
    using size2str_examples(3) by simp
  with loop fixed2_shape [of x] size2str_examples(1,2) show ?thesis
    by blast
qed

theorem C1_size2str_witness:
  "size2str_loop (to_float (sint (1536 :: off_t))) 0 = (3 / 2, 1)
   \<and> (1 :: nat) < 4 \<and> (3 / 2 :: rat) \<le> 1024
   \<and> size2str 1536 = fixed2 (3 / 2) @ '' KB''
   \<and> size2str_loop (to_float (sint (1099511693313 :: off_t))) 0 = (1099511758848 / 1024 ^ 4, 4)
   \<and> 1024 ^ 4 + 65536 < sint (1099511693313 :: off_t)
   \<and> size2str 1099511693313 = fixed2 (1099511758848 / 1024 ^ 4) @ '' TB''
   \<and> 1024 ^ 4 \<le> sint (1099511693312 :: off_t) \<and> sint (1099511693312 :: off_t) \<le> 1024 ^ 4 + 65536
   \<and> size2str 1099511693312 = ''1024.00 GB''"
proof -
  have a: "size2str_loop (to_float (sint (1536 :: off_t))) 0 = (3 / 2, 1)"
    by (simp add: to_float_small size2str_loop_values)
  have b: "size2str_loop (to_float (sint (1099511693313 :: off_t))) 0
      = (1099511758848 / 1024 ^ 4, 4)"
    by (simp add: to_float_nonneg binary32_values size2str_loop_step size2str_loop_stop)
  have tb: "1024 ^ 4 + 65536 < sint (1099511693313 :: off_t)"
    by simp
  have gb: "1024 ^ 4 \<le> sint (1099511693312 :: off_t)
      \<and> sint (1099511693312 :: off_t) \<le> 1024 ^ 4 + 65536"
    by simp
  have k: "(1 :: nat) < 4"
    by simp
  from C1_size2str [of 1536 "3 / 2" 1] a
  have "(1 :: nat) < 4 \<longrightarrow> (3 / 2 :: rat) \<le> 1024"
    and "size2str 1536 = fixed2 (3 / 2) @ '' '' @ units ! 1"
    by blast+
  with k have c: "(3 / 2 :: rat) \<le> 1024 \<and> size2str 1536 = fixed2 (3 / 2) @ '' KB''"
    by (simp add: units_values)
  from C1_size2str [of 1099511693313 "1099511758848 / 1024 ^ 4" 4] b tb
  have "units ! 4 = ''TB''"
    and "size2str 1099511693313 = fixed2 (1099511758848 / 1024 ^ 4) @ '' '' @ units ! 4"
    by blast+
  then have d: "size2str 1099511693313 = fixed2 (1099511758848 / 1024 ^ 4) @ '' TB''"
    by simp
  have e: "size2str 1099511693312 = ''1024.00 GB''"
  proof -
    let ?b = "1099511693312 :: off_t"
    let ?r = "size2str_loop (to_float (sint ?b)) 0"
    have r: "?r = (fst ?r, snd ?r)"
      by (rule prod.collapse [symmetric])
    from C1_size2str [of ?b "fst ?r" "snd ?r"] r gb show ?thesis
      by blast
  qed
  from a b tb gb c d e show ?thesis
    by simp
qed

text \<open>
  The claim as stated fails at \<open>b = 1024^4\<close>: the unit is GB, not TB.
\<close>

theorem C1_size2str_counterexample:
  "1024 ^ 4 \<le> sint (1099511627776 :: off_t)
   \<and> size2str 1099511627776 = ''1024.00 GB''
   \<and> \<not> (\<exists>n. size2str 1099511627776 = n @ '' TB'')"
proof -
  have "n @ '' TB'' \<noteq> ''1024.00 GB''" for n
  proof
    assume "n @ '' TB'' = ''1024.00 GB''"
    then have "rev (n @ '' TB'') = rev ''1024.00 GB''"
      by (rule arg_cong)
    then show False by simp
  qed
  then show ?thesis
    by (simp add: size2str_examples)
qed

subsection \<open>Rounding to two decimals\<close>

lemma round_half_even_bounds:
  "of_int (round_half_even y) - 1 / 2 \<le> y" "y \<le> of_int (round_half_even y) + 1 / 2"
proof -
  define fl where "fl = \<lfloor>y\<rfloor>"
  define up where "up \<longleftrightarrow> 1 / 2 < y - of_int fl \<or> (y - of_int fl = 1 / 2 \<and> odd fl)"
  have fl: "of_int fl \<le> y" "y < of_int fl + 1"
    unfolding fl_def by linarith+
  have r: "round_half_even y = (if up then fl + 1 else fl)"
    by (simp add: round_half_even_def Let_def fl_def up_def)
  show "of_int (round_half_even y) - 1 / 2 \<le> y"
  proof (cases up)
    case True
    then have "1 / 2 \<le> y - of_int fl"
      unfolding up_def by linarith
    with True show ?thesis
      unfolding r by simp
  next
    case False
    with fl show ?thesis
      unfolding r by simp
  qed
  show "y \<le> of_int (round_half_even y) + 1 / 2"
  proof (cases up)
    case True
    with fl show ?thesis
      unfolding r by simp
  next
    case False
    then have "y - of_int fl \<le> 1 / 2"
      unfolding up_def by linarith
    with False show ?thesis
      unfolding r by simp
  qed
qed

lemma round_half_even_unique:
  assumes "of_int n - 1 / 2 < y" and "y < of_int n + 1 / 2"
  shows "round_half_even y = n"
proof -
  have lo: "of_int (round_half_even y) - 1 / 2 \<le> y"
    and hi: "y \<le> of_int (round_half_even y) + 1 / 2"
    by (rule round_half_even_bounds)+
  from assms(2) lo have "(of_int (round_half_even y) :: rat) < of_int n + 1"
    by linarith
  then have a: "round_half_even y < n + 1"
    by (metis of_int_less_iff of_int_add of_int_1)
  from assms(1) hi have "(of_int n :: rat) < of_int (round_half_even y) + 1"
    by linarith
  then have b: "n < round_half_even y + 1"
    by (metis of_int_less_iff of_int_add of_int_1)
  from a b show ?thesis by simp
qed

lemma round_half_even_frac_bounds:
  assumes D: "0 < D" and N: "int N = round_half_even (of_nat F / of_nat D * 100)"
  shows "2 * N * D \<le> 200 * F + D" and "200 * F \<le> 2 * N * D + D"
proof -
  define y :: rat where "y = of_nat F / of_nat D * 100"
  have d: "(0 :: rat) < of_nat D"
    using D by simp
  have yd: "y * of_nat D = 100 * of_nat F"
    using d by (simp add: y_def)
  from round_half_even_bounds [of y] N
  have lo: "of_nat N - 1 / 2 \<le> y" and hi: "y \<le> of_nat N + 1 / 2"
    unfolding y_def by (metis of_int_of_nat_eq)+
  from lo have "(of_nat N - 1 / 2) * of_nat D \<le> y * of_nat D"
    using d by (intro mult_right_mono) simp_all
  then have "2 * of_nat N * of_nat D \<le> 200 * of_nat F + (of_nat D :: rat)"
    unfolding yd by (simp add: algebra_simps)
  then have "(of_nat (2 * N * D) :: rat) \<le> of_nat (200 * F + D)"
    by simp
  then show "2 * N * D \<le> 200 * F + D"
    by (simp only: of_nat_le_iff)
  from hi have "y * of_nat D \<le> (of_nat N + 1 / 2) * of_nat D"
    using d by (intro mult_right_mono) simp_all
  then have "200 * of_nat F \<le> 2 * of_nat N * of_nat D + (of_nat D :: rat)"
    unfolding yd by (simp add: algebra_simps)
  then have "(of_nat (200 * F) :: rat) \<le> of_nat (2 * N * D + D)"
    by simp
  then show "200 * F \<le> 2 * N * D + D"
    by (simp only: of_nat_le_iff)
qed

lemma round_half_even_frac_unique:
  assumes D: "0 < D" and lo: "2 * N * D < 200 * F + D" and hi: "200 * F < 2 * N * D + D"
  shows "round_half_even (of_nat F / of_nat D * 100) = int N"
proof -
  define y :: rat where "y = of_nat F / of_nat D * 100"
  have d: "(0 :: rat) < of_nat D"
    using D by simp
  have yd: "y = 100 * of_nat F / of_nat D"
    by (simp add: y_def)
  from lo have "(of_nat (2 * N * D) :: rat) < of_nat (200 * F + D)"
    by (simp only: of_nat_less_iff)
  then have "(of_nat N - 1 / 2) * (of_nat D :: rat) < 100 * of_nat F"
    by (simp add: algebra_simps)
  then have a: "of_int (int N) - 1 / 2 < y"
    unfolding yd using d by (simp add: pos_less_divide_eq)
  from hi have "(of_nat (200 * F) :: rat) < of_nat (2 * N * D + D)"
    by (simp only: of_nat_less_iff)
  then have "100 * of_nat F < (of_nat N + 1 / 2) * (of_nat D :: rat)"
    by (simp add: algebra_simps)
  then have b: "y < of_int (int N) + 1 / 2"
    unfolding yd using d by (simp add: pos_divide_less_eq)
  from a b show ?thesis
    unfolding y_def by (rule round_half_even_unique)
qed

subsection \<open>The nearest binary32 value\<close>

lemma b32_nearest:
  assumes rep: "2 ^ (bit_length f - 24) dvd f"
    and lo: "2 * a < 2 * f + 2 ^ (bit_length a - 24)"
    and hi: "2 * f < 2 * a + 2 ^ (bit_length a - 24)"
  shows "binary32_of_nat a = f"
proof -
  define e where "e = bit_length a - 24"
  have dv: "2 ^ e dvd f"
  proof (cases "bit_length a \<le> bit_length f")
    case True
    then have "e \<le> bit_length f - 24"
      by (simp add: e_def)
    then have "(2 :: nat) ^ e dvd 2 ^ (bit_length f - 24)"
      by (rule le_imp_power_dvd)
    then show ?thesis
      using rep by (rule dvd_trans)
  next
    case False
    show ?thesis
    proof (cases e)
      case 0
      then show ?thesis by simp
    next
      case (Suc d)
      then have la: "bit_length a = d + 1 + 24"
        by (simp add: e_def)
      have e: "e = d + 1"
        using Suc by simp
      have p: "(2 :: nat) ^ (d + 1 + 23) = 2 ^ 24 * 2 ^ d" "(2 :: nat) ^ e = 2 * 2 ^ d"
        "(2 :: nat) ^ (d + 23) = 2 ^ 23 * 2 ^ d"
        by (simp_all add: power_add e)
      have a: "2 ^ 24 * 2 ^ d \<le> a"
        using binade_bounds(1) [OF la] unfolding p .
      from False have "bit_length f \<le> d + 1 + 23"
        unfolding la by simp
      then have "f < 2 ^ (d + 1 + 23)"
        unfolding bit_length_le_iff .
      then have f_hi: "f < 2 ^ 24 * 2 ^ d"
        unfolding p .
      from lo have lo': "2 * a < 2 * f + 2 * 2 ^ d"
        unfolding e_def [symmetric] p .
      with a have "2 ^ 23 * 2 ^ d \<le> f"
        by simp
      then have "2 ^ (d + 23) \<le> f"
        unfolding p .
      moreover have "f < 2 ^ Suc (d + 23)"
        using f_hi by (simp add: power_add)
      ultimately have "bit_length f = Suc (d + 23)"
        by (rule bit_length_eqI)
      then have "bit_length f - 24 = d"
        by simp
      with rep obtain j where j: "f = j * 2 ^ d"
        by (auto simp: dvd_def mult.commute)
      with f_hi have "j * 2 ^ d < 2 ^ 24 * 2 ^ d"
        by simp
      then have "j < 2 ^ 24"
        unfolding mult_less_cancel2 by simp
      then have "j + 1 \<le> 2 ^ 24"
        by simp
      then have "(j + 1) * 2 ^ d \<le> 2 ^ 24 * 2 ^ d"
        by (rule mult_le_mono1)
      then have "f + 2 ^ d \<le> 2 ^ 24 * 2 ^ d"
        unfolding j by (simp add: algebra_simps)
      with a lo' have False
        by simp
      then show ?thesis ..
    qed
  qed
  then obtain m where m: "f = m * 2 ^ e"
    by (auto simp: dvd_def mult.commute)
  have "round_nearest_even e a = m * 2 ^ e"
    using lo hi unfolding e_def [symmetric] m by (rule rne_nearest)
  then show ?thesis
    by (simp add: binary32_of_nat_def e_def [symmetric] m)
qed

subsection \<open>Reading a printed size back\<close>

lemma b32_power2: "binary32_of_nat (2 ^ m) = 2 ^ m"
proof (rule b32_fix)
  have "bit_length (2 ^ m) = Suc m"
    by (rule bit_length_eqI) simp_all
  then have "bit_length (2 ^ m) - 24 \<le> m"
    by simp
  then show "(2 :: nat) ^ (bit_length (2 ^ m) - 24) dvd 2 ^ m"
    by (rule le_imp_power_dvd)
qed

lemma ulp_bound:
  assumes "b < 2 ^ m"
  shows "(2 :: nat) ^ (bit_length b - 24) \<le> 2 ^ (m - 24)"
proof -
  from assms have "bit_length b \<le> m"
    unfolding bit_length_le_iff .
  then have "bit_length b - 24 \<le> m - 24"
    by simp
  then show ?thesis
    by (intro power_increasing) simp_all
qed

lemma ulp_lower:
  assumes "2 ^ m \<le> b"
  shows "(2 :: nat) ^ (Suc m - 24) \<le> 2 ^ (bit_length b - 24)"
proof -
  from assms have "\<not> b < 2 ^ m"
    by simp
  then have "\<not> bit_length b \<le> m"
    unfolding bit_length_le_iff .
  then have "Suc m - 24 \<le> bit_length b - 24"
    by simp
  then show ?thesis
    by (intro power_increasing) simp_all
qed

lemma reformat_small_ulp:
  assumes D: "0 < D" and b1: "100 * b' \<le> N * D" and b2: "N * D < 100 * b' + 100"
    and p: "100 * 2 ^ (bit_length b' - 24) + 200 \<le> D"
  shows "round_half_even (of_nat (binary32_of_nat b') / of_nat D * 100) = int N"
proof (rule round_half_even_frac_unique [OF D])
  define ND where "ND = N * D"
  define P :: nat where "P = 2 ^ (bit_length b' - 24)"
  define F' where "F' = binary32_of_nat b'"
  have e1: "2 * b' \<le> 2 * F' + P" and e2: "2 * F' \<le> 2 * b' + P"
    unfolding F'_def P_def by (rule b32_error)+
  have nd: "2 * N * D = 2 * ND"
    by (simp add: ND_def)
  from b1 b2 p e1 show "2 * N * D < 200 * binary32_of_nat b' + D"
    unfolding nd F'_def [symmetric] P_def [symmetric] ND_def [symmetric] by linarith
  from b1 b2 p e2 show "200 * binary32_of_nat b' < 2 * N * D + D"
    unfolding nd F'_def [symmetric] P_def [symmetric] ND_def [symmetric] by linarith
qed

lemma reformat_large_ulp:
  assumes rep: "2 ^ (bit_length F - 24) dvd F"
    and n1: "2 * N * D \<le> 200 * F + D" and n2: "200 * F \<le> 2 * N * D + D"
    and b1: "100 * b' \<le> N * D" and b2: "N * D < 100 * b' + 100"
    and p: "D + 200 \<le> 100 * 2 ^ (bit_length b' - 24)"
  shows "binary32_of_nat b' = F"
proof (rule b32_nearest [OF rep])
  define ND where "ND = N * D"
  define P :: nat where "P = 2 ^ (bit_length b' - 24)"
  have nd: "2 * N * D = 2 * ND"
    by (simp add: ND_def)
  from n1 b1 p show "2 * b' < 2 * F + 2 ^ (bit_length b' - 24)"
    unfolding nd P_def [symmetric] ND_def [symmetric] by linarith
  from n2 b2 p show "2 * F < 2 * b' + 2 ^ (bit_length b' - 24)"
    unfolding nd P_def [symmetric] ND_def [symmetric] by linarith
qed

lemma div_100_bounds:
  fixes n :: nat
  shows "100 * (n div 100) \<le> n" and "n < 100 * (n div 100) + 100"
proof -
  have "n = 100 * (n div 100) + n mod 100"
    by simp
  moreover have "n mod 100 < 100"
    by simp
  ultimately show "100 * (n div 100) \<le> n" and "n < 100 * (n div 100) + 100"
    by linarith+
qed

lemma reformat_below_tb:
  assumes D: "0 < D" and m: "1024 * D < 2 ^ m" and p: "100 * 2 ^ (m - 24) + 200 \<le> D"
    and hi: "F \<le> 1024 * D" and n1: "2 * N * D \<le> 200 * F + D"
    and b1: "100 * b' \<le> N * D" and b2: "N * D < 100 * b' + 100"
  shows "b' \<le> 1024 * D"
    and "round_half_even (of_nat (binary32_of_nat b') / of_nat D * 100) = int N"
proof -
  define ND where "ND = N * D"
  have nd: "2 * N * D = 2 * ND"
    by (simp add: ND_def)
  from n1 hi D have "2 * ND < 204802 * D"
    unfolding nd by linarith
  then have "(2 * N) * D < 204802 * D"
    unfolding ND_def by (simp only: mult.assoc)
  then have "2 * N < 204802"
    unfolding mult_less_cancel2 by simp
  then have "N \<le> 102400"
    by simp
  then have "ND \<le> 102400 * D"
    unfolding ND_def by (rule mult_le_mono1)
  with b1 show le: "b' \<le> 1024 * D"
    unfolding ND_def [symmetric] by linarith
  with m have "b' < 2 ^ m"
    by simp
  then have "(2 :: nat) ^ (bit_length b' - 24) \<le> 2 ^ (m - 24)"
    by (rule ulp_bound)
  with p have "100 * 2 ^ (bit_length b' - 24) + 200 \<le> D"
    by linarith
  with D b1 b2 show "round_half_even (of_nat (binary32_of_nat b') / of_nat D * 100) = int N"
    by (rule reformat_small_ulp)
qed

lemma reformat_tb:
  assumes D: "D = 1099511627776"
    and rep: "2 ^ (bit_length F - 24) dvd F"
    and top: "F \<le> 2 ^ 63 - 2 ^ 39"
    and N: "int N = round_half_even (of_nat F / of_nat D * 100)"
    and b1: "100 * b' \<le> N * D" and b2: "N * D < 100 * b' + 100"
  shows "b' < 2 ^ 63"
    and "round_half_even (of_nat (binary32_of_nat b') / of_nat D * 100) = int N"
proof -
  have Dpos: "0 < D"
    by (simp add: D)
  note n = round_half_even_frac_bounds [OF Dpos N]
  define ND where "ND = N * D"
  have nd: "2 * N * D = 2 * ND"
    by (simp add: ND_def)
  from n(1) b1 top show "b' < 2 ^ 63"
    unfolding nd ND_def [symmetric] D by simp
  show "round_half_even (of_nat (binary32_of_nat b') / of_nat D * 100) = int N"
  proof (cases "b' < 2 ^ 57")
    case True
    then have "(2 :: nat) ^ (bit_length b' - 24) \<le> 2 ^ (57 - 24)"
      by (rule ulp_bound)
    then have "100 * 2 ^ (bit_length b' - 24) + 200 \<le> D"
      by (simp add: D)
    with Dpos b1 b2 show ?thesis
      by (rule reformat_small_ulp)
  next
    case False
    then have "2 ^ 57 \<le> b'"
      by simp
    then have "(2 :: nat) ^ (Suc 57 - 24) \<le> 2 ^ (bit_length b' - 24)"
      by (rule ulp_lower)
    then have "D + 200 \<le> 100 * 2 ^ (bit_length b' - 24)"
      by (simp add: D)
    with rep n b1 b2 have "binary32_of_nat b' = F"
      by (rule reformat_large_ulp)
    with N show ?thesis
      by simp
  qed
qed

lemma reformat_core:
  fixes F N k D b' :: nat
  assumes D: "D = 1024 ^ k" and k: "1 \<le> k" "k \<le> 4"
    and rep: "2 ^ (bit_length F - 24) dvd F"
    and hi: "k < 4 \<longrightarrow> F \<le> 1024 * D"
    and top: "F \<le> 2 ^ 63 - 2 ^ 39"
    and N: "int N = round_half_even (of_nat F / of_nat D * 100)"
    and N101: "101 \<le> N"
    and b': "b' = N * D div 100"
  shows "b' < 2 ^ 63 \<and> D < binary32_of_nat b'
       \<and> (k < 4 \<longrightarrow> binary32_of_nat b' \<le> 1024 * D)
       \<and> round_half_even (of_nat (binary32_of_nat b') / of_nat D * 100) = int N"
proof -
  have Dpos: "0 < D"
    by (simp add: D)
  note n = round_half_even_frac_bounds [OF Dpos N]
  have b1: "100 * b' \<le> N * D" and b2: "N * D < 100 * b' + 100"
    unfolding b' by (rule div_100_bounds)+
  have main: "b' < 2 ^ 63 \<and> (k < 4 \<longrightarrow> b' \<le> 1024 * D)
       \<and> round_half_even (of_nat (binary32_of_nat b') / of_nat D * 100) = int N"
  proof -
    from k consider "k = 1" | "k = 2" | "k = 3" | "k = 4"
      by arith
    then show ?thesis
    proof cases
      case 1
      then have d: "D = 1024" by (simp add: D)
      have "1024 * D < 2 ^ 21" "100 * 2 ^ (21 - 24) + 200 \<le> D"
        by (simp_all add: d)
      from reformat_below_tb [OF Dpos this _ n(1) b1 b2] hi 1
      have "b' \<le> 1024 * D"
        "round_half_even (of_nat (binary32_of_nat b') / of_nat D * 100) = int N"
        by simp_all
      then show ?thesis by (simp add: d)
    next
      case 2
      then have d: "D = 1048576" by (simp add: D)
      have "1024 * D < 2 ^ 31" "100 * 2 ^ (31 - 24) + 200 \<le> D"
        by (simp_all add: d)
      from reformat_below_tb [OF Dpos this _ n(1) b1 b2] hi 2
      have "b' \<le> 1024 * D"
        "round_half_even (of_nat (binary32_of_nat b') / of_nat D * 100) = int N"
        by simp_all
      then show ?thesis by (simp add: d)
    next
      case 3
      then have d: "D = 1073741824" by (simp add: D)
      have "1024 * D < 2 ^ 41" "100 * 2 ^ (41 - 24) + 200 \<le> D"
        by (simp_all add: d)
      from reformat_below_tb [OF Dpos this _ n(1) b1 b2] hi 3
      have "b' \<le> 1024 * D"
        "round_half_even (of_nat (binary32_of_nat b') / of_nat D * 100) = int N"
        by simp_all
      then show ?thesis by (simp add: d)
    next
      case 4
      then have d: "D = 1099511627776" by (simp add: D)
      from reformat_tb [OF d rep top N b1 b2] 4 show ?thesis
        by simp
    qed
  qed
  then have r: "int N = round_half_even (of_nat (binary32_of_nat b') / of_nat D * 100)"
    by simp
  define ND where "ND = N * D"
  have nd: "2 * N * D = 2 * ND"
    by (simp add: ND_def)
  from N101 have "101 * D \<le> ND"
    unfolding ND_def by (rule mult_le_mono1)
  with round_half_even_frac_bounds(1) [OF Dpos r] Dpos have gt: "D < binary32_of_nat b'"
    unfolding nd by linarith
  have le: "binary32_of_nat b' \<le> 1024 * D" if "k < 4"
  proof -
    from that main have "b' \<le> 1024 * D"
      by simp
    then have "binary32_of_nat b' \<le> binary32_of_nat (1024 * D)"
      by (rule b32_mono)
    also have "1024 * D = 2 ^ (10 + 10 * k)"
      by (simp add: D power_add power_mult)
    also have "binary32_of_nat \<dots> = 2 ^ (10 + 10 * k)"
      by (rule b32_power2)
    also have "\<dots> = 1024 * D"
      by (simp add: D power_add power_mult)
    finally show ?thesis .
  qed
  from main gt le show ?thesis
    by blast
qed

subsection \<open>Parsing what was printed\<close>

lemma digit_val_digit_char: "d < 10 \<Longrightarrow> digit_val (digit_char d) = d"
proof -
  assume "d < 10"
  then have "d = 0 \<or> d = 1 \<or> d = 2 \<or> d = 3 \<or> d = 4 \<or> d = 5 \<or> d = 6 \<or> d = 7 \<or> d = 8 \<or> d = 9"
    by arith
  then show ?thesis
    by (auto simp: digit_val_def digit_char_def)
qed

lemma read_nat_snoc: "read_nat (s @ [c]) = 10 * read_nat s + digit_val c"
  by (simp add: read_nat_def)

lemma read_nat_show_nat: "read_nat (show_nat n) = n"
proof (induction n rule: show_nat.induct)
  case (1 n)
  show ?case
  proof (cases "n < 10")
    case True
    then show ?thesis
      by (simp add: show_nat_less read_nat_def digit_val_digit_char)
  next
    case False
    have "n mod 10 < 10" by simp
    then have "digit_val (digit_char (n mod 10)) = n mod 10"
      by (rule digit_val_digit_char)
    with False "1.IH" show ?thesis
      by (simp add: show_nat_more read_nat_snoc)
  qed
qed

lemma read_nat_two_digits:
  "d1 < 10 \<Longrightarrow> d2 < 10 \<Longrightarrow> read_nat [digit_char d1, digit_char d2] = 10 * d1 + d2"
  by (simp add: read_nat_def digit_val_digit_char)

lemma digit_not_special:
  assumes "c \<in> set ''0123456789''"
  shows "c \<noteq> CHR ''.''" "c \<noteq> CHR '' ''" "c \<noteq> CHR ''-''"
  using assms by auto

lemma show_nat_not_special:
  assumes "c \<in> set (show_nat m)"
  shows "c \<noteq> CHR ''.''" "c \<noteq> CHR '' ''" "c \<noteq> CHR ''-''"
proof -
  from assms show_nat_digits [of m] have "c \<in> set ''0123456789''"
    by blast
  then show "c \<noteq> CHR ''.''" "c \<noteq> CHR '' ''" "c \<noteq> CHR ''-''"
    by (rule digit_not_special)+
qed

lemma take1_show_nat: "take 1 (show_nat m @ s) \<noteq> ''-''"
proof -
  from show_nat_digits [of m] obtain c cs where c: "show_nat m = c # cs"
    by (cases "show_nat m") auto
  then have "c \<in> set (show_nat m)"
    by simp
  then have "c \<noteq> CHR ''-''"
    by (rule show_nat_not_special)
  with c show ?thesis
    by simp
qed

lemma read_fixed_parts:
  assumes "(take 1 s = ''-'') = neg"
    and "(if neg then drop 1 s else s) = t"
    and "takeWhile (\<lambda>c. c \<noteq> CHR ''.'') t = ip"
    and "dropWhile (\<lambda>c. c \<noteq> CHR ''.'') t = CHR ''.'' # fp"
  shows "read_fixed s =
         (if neg then - 1 else 1) * (of_nat (read_nat ip) + of_nat (read_nat fp) / 10 ^ length fp)"
  unfolding read_fixed_def Let_def assms by simp

lemma split_at_point:
  "takeWhile (\<lambda>c. c \<noteq> CHR ''.'') (show_nat m @ CHR ''.'' # fp) = show_nat m"
  "dropWhile (\<lambda>c. c \<noteq> CHR ''.'') (show_nat m @ CHR ''.'' # fp) = CHR ''.'' # fp"
  by (simp_all add: takeWhile_append2 dropWhile_append2 show_nat_not_special)

lemma read_fixed_unsigned:
  assumes "d1 < 10" "d2 < 10"
  shows "read_fixed (show_nat m @ CHR ''.'' # [digit_char d1, digit_char d2])
         = of_nat m + of_nat (10 * d1 + d2) / 100"
proof -
  let ?s = "show_nat m @ CHR ''.'' # [digit_char d1, digit_char d2]"
  have neg: "(take 1 ?s = ''-'') = False"
    using take1_show_nat [of m] by blast
  have t: "(if False then drop 1 ?s else ?s) = ?s"
    by (rule if_False)
  from read_fixed_parts [OF neg t split_at_point] show ?thesis
    by (simp add: read_nat_show_nat read_nat_two_digits assms)
qed

lemma read_fixed_signed:
  assumes "d1 < 10" "d2 < 10"
  shows "read_fixed (CHR ''-'' # show_nat m @ CHR ''.'' # [digit_char d1, digit_char d2])
         = - (of_nat m + of_nat (10 * d1 + d2) / 100)"
proof -
  let ?s = "show_nat m @ CHR ''.'' # [digit_char d1, digit_char d2]"
  have neg: "(take 1 (CHR ''-'' # ?s) = ''-'') = True"
    by simp
  have t: "(if True then drop 1 (CHR ''-'' # ?s) else CHR ''-'' # ?s) = ?s"
    by simp
  from read_fixed_parts [OF neg t split_at_point] show ?thesis
    by (simp add: read_nat_show_nat read_nat_two_digits assms)
qed

lemma hundredths: "of_nat (n div 100) + of_nat (10 * (n mod 100 div 10) + n mod 10) / 100
    = (of_nat n :: rat) / 100"
proof -
  have "n mod 100 mod 10 = n mod 10"
    by (rule mod_mod_cancel) simp
  moreover have "10 * (n mod 100 div 10) + n mod 100 mod 10 = n mod 100"
    by (rule mult_div_mod_eq)
  ultimately have "10 * (n mod 100 div 10) + n mod 10 = n mod 100"
    by simp
  moreover have "(of_nat (n div 100) :: rat) + of_nat (n mod 100) / 100 = of_nat n / 100"
  proof -
    have "(of_nat n :: rat) = of_nat (100 * (n div 100) + n mod 100)"
      by simp
    also have "\<dots> = 100 * of_nat (n div 100) + of_nat (n mod 100)"
      by (simp only: of_nat_add of_nat_mult of_nat_numeral)
    finally show ?thesis
      by simp
  qed
  ultimately show ?thesis
    by simp
qed

lemma read_fixed_fixed2:
  "read_fixed (fixed2 x)
   = (if x < 0 then - 1 else 1) * of_nat (nat (round_half_even (\<bar>x\<bar> * 100))) / 100"
proof -
  define n where "n = nat (round_half_even (\<bar>x\<bar> * 100))"
  have d: "n mod 100 div 10 < 10" "n mod 10 < 10"
    by simp_all
  have f: "fixed2 x = (if x < 0 then ''-'' else []) @ show_nat (n div 100) @ ''.'' @
         [digit_char (n mod 100 div 10), digit_char (n mod 10)]"
    by (simp add: fixed2_def n_def Let_def)
  show ?thesis
  proof (cases "x < 0")
    case True
    with f have "fixed2 x = CHR ''-'' # show_nat (n div 100) @ CHR ''.'' #
         [digit_char (n mod 100 div 10), digit_char (n mod 10)]"
      by simp
    then have "read_fixed (fixed2 x) = - ((of_nat n :: rat) / 100)"
      by (simp only: read_fixed_signed [OF d] hundredths)
    with True show ?thesis
      by (simp add: n_def)
  next
    case False
    with f have "fixed2 x = show_nat (n div 100) @ CHR ''.'' #
         [digit_char (n mod 100 div 10), digit_char (n mod 10)]"
      by simp
    then have "read_fixed (fixed2 x) = (of_nat n :: rat) / 100"
      by (simp only: read_fixed_unsigned [OF d] hundredths)
    with False show ?thesis
      by (simp add: n_def)
  qed
qed

lemma fixed2_no_space: "c \<in> set (fixed2 x) \<Longrightarrow> c \<noteq> CHR '' ''"
proof -
  assume c: "c \<in> set (fixed2 x)"
  from fixed2_shape [of x] obtain sign ds d1 d2 where
    f: "fixed2 x = sign @ ds @ ''.'' @ [d1, d2]" and s: "sign = '''' \<or> sign = ''-''"
    and ds: "set ds \<subseteq> set ''0123456789''"
    and d: "d1 \<in> set ''0123456789''" "d2 \<in> set ''0123456789''"
    by blast
  from c f have "c \<in> set sign \<or> c \<in> set ds \<or> c = CHR ''.'' \<or> c = d1 \<or> c = d2"
    by auto
  with s ds d show ?thesis
    by (auto dest: digit_not_special(2))
qed

lemma unit_index_units: "k \<le> 4 \<Longrightarrow> unit_index (units ! k) = k"
proof -
  assume "k \<le> 4"
  then have "k = 0 \<or> k = 1 \<or> k = 2 \<or> k = 3 \<or> k = 4"
    by arith
  then show ?thesis
    by (auto simp: unit_index_def units_def)
qed

lemma read_size_printed:
  assumes "k \<le> 4"
  shows "read_size (fixed2 x @ '' '' @ units ! k) = read_fixed (fixed2 x) * 1024 ^ k"
proof -
  let ?s = "fixed2 x @ '' '' @ units ! k"
  have num: "takeWhile (\<lambda>c. c \<noteq> CHR '' '') ?s = fixed2 x"
    by (simp add: takeWhile_append2 fixed2_no_space)
  have u: "dropWhile (\<lambda>c. c \<noteq> CHR '' '') ?s = '' '' @ units ! k"
    by (simp add: dropWhile_append2 fixed2_no_space)
  show ?thesis
    unfolding read_size_def Let_def
    by (simp only: num u) (simp add: unit_index_units [OF assms])
qed

subsection \<open>Formatting the byte count read back\<close>

lemma sint_word_of_int_64:
  "- (2 ^ 63) \<le> i \<Longrightarrow> i < 2 ^ 63 \<Longrightarrow> sint (word_of_int i :: off_t) = i"
  by (simp add: sint_sbintrunc' signed_take_bit_int_eq_self)

lemma size2str_loop_eq:
  assumes k: "k \<le> 4" and lo: "k \<noteq> 0 \<longrightarrow> 1024 ^ k < f"
    and hi: "k < 4 \<longrightarrow> f \<le> 1024 * 1024 ^ k"
  shows "size2str_loop f 0 = (f / 1024 ^ k, k)"
proof -
  obtain v' k' where res: "size2str_loop f 0 = (v', k')"
    by (cases "size2str_loop f 0")
  note inv = size2str_loop_invariant [OF res le0, unfolded diff_zero]
  from inv have k': "k' \<le> 4" and v': "v' = f / 1024 ^ k'"
    and gt: "\<forall>j<k'. 1024 < f / 1024 ^ j" and le: "k' < 4 \<longrightarrow> v' \<le> 1024"
    by blast+
  have "k' = k"
  proof (rule ccontr)
    assume "k' \<noteq> k"
    then consider "k' < k" | "k < k'"
      by arith
    then show False
    proof cases
      case 1
      with k le have "f / 1024 ^ k' \<le> 1024"
        unfolding v' by simp
      then have "f \<le> 1024 * 1024 ^ k'"
        by (simp add: pos_divide_le_eq)
      also have "\<dots> = 1024 ^ Suc k'"
        by simp
      also have "\<dots> \<le> 1024 ^ k"
        using 1 by (intro power_increasing) simp_all
      finally have "f \<le> 1024 ^ k" .
      moreover from 1 have "k \<noteq> 0"
        by simp
      ultimately show False
        using lo by simp
    next
      case 2
      with gt have "1024 < f / 1024 ^ k"
        by blast
      then have "1024 * 1024 ^ k < f"
        by (simp add: pos_less_divide_eq)
      moreover from 2 k' have "k < 4"
        by simp
      ultimately show False
        using hi by simp
    qed
  qed
  with res v' show ?thesis
    by simp
qed

lemma fixed2_eqI:
  "0 \<le> x \<Longrightarrow> 0 \<le> y \<Longrightarrow> round_half_even (x * 100) = round_half_even (y * 100) \<Longrightarrow>
   fixed2 x = fixed2 y"
  by (simp add: fixed2_def)

lemma round_half_even_nonneg: "0 \<le> y \<Longrightarrow> 0 \<le> round_half_even y"
proof -
  assume "0 \<le> y"
  with round_half_even_bounds(2) [of y] have "(- 1 :: rat) < of_int (round_half_even y)"
    by linarith
  then have "- 1 < round_half_even y"
    by (metis of_int_less_iff of_int_minus of_int_1)
  then show ?thesis
    by simp
qed

lemma truncate_rat_of_nat_div: "truncate_rat (of_nat m / 100) = int (m div 100)"
proof -
  have "\<lfloor>(of_nat m :: rat) / of_nat 100\<rfloor> = of_nat (m div 100)"
    by (rule floor_divide_of_nat_eq)
  then show ?thesis
    by (simp add: truncate_rat_def)
qed

lemma to_float_idem:
  "to_float (sgn n * int (binary32_of_nat (nat \<bar>n\<bar>))) = to_float n"
proof (cases "n = 0")
  case True
  then show ?thesis
    by (simp add: to_float_def b32_small)
next
  case False
  define M where "M = binary32_of_nat (nat \<bar>n\<bar>)"
  from False have "1 \<le> nat \<bar>n\<bar>"
    by simp
  then have "binary32_of_nat 1 \<le> M"
    unfolding M_def by (rule b32_mono)
  then have M: "0 < M"
    by (simp add: b32_small)
  have "sgn (sgn n * int M) = sgn n"
    using False M by (simp add: sgn_mult)
  moreover have "nat \<bar>sgn n * int M\<bar> = M"
    using False by (simp add: abs_mult)
  ultimately show ?thesis
    unfolding to_float_def M_def [symmetric] by (simp add: M_def b32_idem)
qed

lemma size2str_cong: "to_float (sint c) = to_float (sint b) \<Longrightarrow> size2str c = size2str b"
  by (simp add: size2str_def)

lemma read_fixed_of_int: "read_fixed (fixed2 (of_int i)) = of_int i"
proof -
  have "\<bar>of_int i :: rat\<bar> * 100 = of_int (\<bar>i\<bar> * 100)"
    by simp
  then have "round_half_even (\<bar>of_int i :: rat\<bar> * 100) = \<bar>i\<bar> * 100"
    by (simp only: round_half_even_of_int)
  then have "(of_nat (nat (round_half_even (\<bar>of_int i :: rat\<bar> * 100))) :: rat) = of_int \<bar>i\<bar> * 100"
    by simp
  then show ?thesis
    unfolding read_fixed_fixed2 by simp
qed

lemma truncate_rat_of_int: "truncate_rat (of_int i) = i"
  by (simp add: truncate_rat_def)

lemma b32_le_2_63: "a \<le> 2 ^ 63 \<Longrightarrow> binary32_of_nat a \<le> 2 ^ 63"
  using b32_mono [of a "2 ^ 63"] by (simp only: b32_power2)

lemma reformat_unit0:
  assumes res: "size2str_loop (to_float (sint b)) 0 = (v, 0)"
  shows "reformat b = size2str b"
proof -
  define n where "n = sint b"
  define i where "i = sgn n * int (binary32_of_nat (nat \<bar>n\<bar>))"
  have f: "to_float n = of_int i"
    by (simp add: to_float_def i_def)
  note inv = size2str_loop_invariant [OF res le0, unfolded diff_zero]
  from inv have v: "v = to_float n" and le: "v \<le> 1024"
    by (simp_all add: n_def)
  have str: "size2str b = fixed2 (of_int i) @ '' '' @ units ! 0"
    using size2str_float [OF refl res] by (simp add: v f)
  have "read_size (size2str b) = read_fixed (fixed2 (of_int i)) * 1024 ^ 0"
    unfolding str by (rule read_size_printed) simp
  then have rs: "read_size (size2str b) = of_int i"
    by (simp add: read_fixed_of_int)
  have "- (2 ^ 63) \<le> n" "n < 2 ^ 63"
    unfolding n_def using sint_ge [of b] sint_lt [of b] by simp_all
  then have "nat \<bar>n\<bar> \<le> 2 ^ 63"
    by simp
  then have "binary32_of_nat (nat \<bar>n\<bar>) \<le> 2 ^ 63"
    by (rule b32_le_2_63)
  then have "int (binary32_of_nat (nat \<bar>n\<bar>)) \<le> 2 ^ 63"
    by (metis of_nat_le_iff of_nat_numeral of_nat_power)
  then have lo: "- (2 ^ 63) \<le> i"
    unfolding i_def by (cases "n < 0"; cases "n = 0") simp_all
  have "(of_int i :: rat) \<le> 1024"
    using le unfolding v f .
  then have "i \<le> 1024"
    by (metis of_int_le_iff of_int_numeral)
  then have hi: "i < 2 ^ 63"
    by simp
  have "sint (word_of_int i :: off_t) = i"
    using lo hi by (rule sint_word_of_int_64)
  then have "to_float (sint (word_of_int i :: off_t)) = to_float (sint b)"
    unfolding i_def n_def [symmetric] by (simp only: to_float_idem)
  then have "size2str (word_of_int i) = size2str b"
    by (rule size2str_cong)
  then show ?thesis
    unfolding reformat_def rs truncate_rat_of_int .
qed

lemma binary32_top: "binary32_of_nat 9223371761976868863 = 9223371487098961920"
proof -
  have "bit_length 9223371761976868863 = Suc 62"
    by (rule bit_length_eqI) simp_all
  then show ?thesis
    by (simp add: binary32_of_nat_def rne_unfold)
qed

lemma reformat_scaled:
  assumes res: "size2str_loop (to_float (sint b)) 0 = (v, k)"
    and k1: "1 \<le> k"
    and rng: "sint b < 2 ^ 63 - 2 ^ 38"
    and ne: "round_half_even (v * 100) \<noteq> 100"
  shows "reformat b = size2str b"
proof -
  define n where "n = sint b"
  define F where "F = binary32_of_nat (nat n)"
  define D :: nat where "D = 1024 ^ k"
  have Dr: "(1024 :: rat) ^ k = of_nat D"
    by (simp add: D_def)
  have Dpos: "0 < D"
    by (simp add: D_def)
  note inv = size2str_loop_invariant [OF res le0, unfolded diff_zero]
  from inv have k4: "k \<le> 4" and v: "v = to_float n / 1024 ^ k"
    and gt: "\<forall>j<k. 1024 < to_float n / 1024 ^ j" and le: "k < 4 \<longrightarrow> v \<le> 1024"
    unfolding n_def by blast+
  from k1 gt have "1024 < to_float n / 1024 ^ 0"
    by (metis less_eq_Suc_le One_nat_def)
  then have "\<not> to_float n \<le> 0"
    by simp
  then have "\<not> n \<le> 0"
    using to_float_nonpos [of n] by blast
  then have n0: "0 \<le> n"
    by simp
  have f: "to_float n = of_nat F"
    unfolding F_def using n0 by (rule to_float_nonneg)
  have vF: "v = of_nat F / of_nat D"
    unfolding v f Dr ..
  have rep: "2 ^ (bit_length F - 24) dvd F"
    unfolding F_def by (rule b32_representable)
  \<comment> \<open>the value before the last division was above 1024\<close>
  obtain k0 where k0: "k = Suc k0"
    using k1 by (cases k) simp_all
  with gt have "1024 < to_float n / 1024 ^ k0"
    by simp
  then have "1024 * 1024 ^ k0 < to_float n"
    by (simp add: pos_less_divide_eq)
  then have "(of_nat D :: rat) < of_nat F"
    unfolding f Dr [symmetric] k0 by simp
  then have lo: "D < F"
    by (simp only: of_nat_less_iff)
  have hi: "k < 4 \<longrightarrow> F \<le> 1024 * D"
  proof
    assume "k < 4"
    with le have "of_nat F / of_nat D \<le> (1024 :: rat)"
      unfolding vF by simp
    then have "(of_nat F :: rat) \<le> 1024 * of_nat D"
      using Dpos by (simp add: pos_divide_le_eq)
    then have "(of_nat F :: rat) \<le> of_nat (1024 * D)"
      by simp
    then show "F \<le> 1024 * D"
      by (simp only: of_nat_le_iff)
  qed
  have top: "F \<le> 2 ^ 63 - 2 ^ 39"
  proof -
    from rng n0 have "nat n \<le> 9223371761976868863"
      unfolding n_def by simp
    then have "F \<le> binary32_of_nat 9223371761976868863"
      unfolding F_def by (rule b32_mono)
    then show ?thesis
      by (simp add: binary32_top)
  qed
  \<comment> \<open>the printed hundredths\<close>
  have v0: "0 \<le> v"
    unfolding vF by simp
  define N where "N = nat (round_half_even (v * 100))"
  have "0 \<le> round_half_even (v * 100)"
    using v0 by (intro round_half_even_nonneg) simp
  then have N: "int N = round_half_even (of_nat F / of_nat D * 100)"
    unfolding N_def vF by simp
  note nb = round_half_even_frac_bounds [OF Dpos N]
  define ND where "ND = N * D"
  have nd: "2 * N * D = 2 * ND"
    by (simp add: ND_def)
  from nb(2) lo have "200 * D < 2 * ND + D"
    unfolding nd by linarith
  also have "2 * ND + D = (2 * N + 1) * D"
    unfolding ND_def by (simp add: algebra_simps)
  finally have "200 < 2 * N + 1"
    unfolding mult_less_cancel2 by blast
  moreover from ne N have "N \<noteq> 100"
    unfolding vF by auto
  ultimately have N101: "101 \<le> N"
    by simp
  define b' where "b' = N * D div 100"
  from reformat_core [OF D_def k1 k4 rep hi top N N101 b'_def]
  have b63: "b' < 2 ^ 63" and lo': "D < binary32_of_nat b'"
    and hi': "k < 4 \<longrightarrow> binary32_of_nat b' \<le> 1024 * D"
    and N': "round_half_even (of_nat (binary32_of_nat b') / of_nat D * 100) = int N"
    by blast+
  \<comment> \<open>reading the text back\<close>
  have str: "size2str b = fixed2 v @ '' '' @ units ! k"
    using res by (rule size2str_float [OF refl])
  have "read_fixed (fixed2 v) = of_nat N / 100"
    unfolding read_fixed_fixed2 N_def using v0 by simp
  then have "read_size (size2str b) = of_nat N / 100 * of_nat D"
    unfolding str read_size_printed [OF k4] Dr by simp
  then have rs: "read_size (size2str b) = of_nat (N * D) / 100"
    by simp
  have tr: "truncate_rat (read_size (size2str b)) = int b'"
    unfolding rs b'_def by (rule truncate_rat_of_nat_div)
  have "int b' < 2 ^ 63"
    using b63 by (metis of_nat_less_iff of_nat_numeral of_nat_power)
  then have sb: "sint (word_of_int (int b') :: off_t) = int b'"
    by (intro sint_word_of_int_64) simp_all
  \<comment> \<open>formatting it again\<close>
  define f' :: rat where "f' = of_nat (binary32_of_nat b')"
  have tf: "to_float (sint (word_of_int (int b') :: off_t)) = f'"
    unfolding sb f'_def by (simp add: to_float_nonneg)
  have "(of_nat D :: rat) < f'"
    unfolding f'_def using lo' by (simp only: of_nat_less_iff)
  then have l1: "k \<noteq> 0 \<longrightarrow> 1024 ^ k < f'"
    unfolding Dr by simp
  have l2: "k < 4 \<longrightarrow> f' \<le> 1024 * 1024 ^ k"
  proof
    assume "k < 4"
    with hi' have "binary32_of_nat b' \<le> 1024 * D"
      by simp
    then have "f' \<le> of_nat (1024 * D)"
      unfolding f'_def by (simp only: of_nat_le_iff)
    then show "f' \<le> 1024 * 1024 ^ k"
      unfolding Dr by simp
  qed
  have loop': "size2str_loop f' 0 = (f' / 1024 ^ k, k)"
    using k4 l1 l2 by (rule size2str_loop_eq)
  have "reformat b = fixed2 (f' / 1024 ^ k) @ '' '' @ units ! k"
    unfolding reformat_def tr using tf loop' by (rule size2str_float)
  moreover have "fixed2 (f' / 1024 ^ k) = fixed2 v"
  proof (rule fixed2_eqI)
    show "0 \<le> f' / 1024 ^ k"
      unfolding f'_def by simp
    show "0 \<le> v"
      by (rule v0)
    show "round_half_even (f' / 1024 ^ k * 100) = round_half_even (v * 100)"
      unfolding f'_def Dr N' vF N [symmetric] ..
  qed
  ultimately show ?thesis
    unfolding str by simp
qed

lemma fixed2_one:
  assumes "round_half_even (v * 100) = 100" and "0 \<le> v"
  shows "fixed2 v = ''1.00''"
proof -
  from assms have "nat (round_half_even (\<bar>v\<bar> * 100)) = 100" and "\<not> v < 0"
    by simp_all
  then show ?thesis
    unfolding fixed2_def Let_def by (simp add: show_nat_values digit_char_def)
qed

lemma units_above_b:
  assumes "1 \<le> k" and "k \<le> 4"
  shows "units ! k = ''KB'' \<or> units ! k = ''MB'' \<or> units ! k = ''GB'' \<or> units ! k = ''TB''"
proof -
  from assms have "k = 1 \<or> k = 2 \<or> k = 3 \<or> k = 4"
    by arith
  then show ?thesis
    by (auto simp: units_def)
qed

lemma read_size_one: "k \<le> 4 \<Longrightarrow> read_size (''1.00 '' @ units ! k) = 1024 ^ k"
proof -
  assume k: "k \<le> 4"
  have "read_fixed (fixed2 1) = 1"
    using read_fixed_of_int [of 1] by simp
  with read_size_printed [OF k, of 1] show ?thesis
    by (simp add: fixed2_values)
qed

lemma size2str_powers:
  "size2str 1024 = ''1024.00 B''"
  "size2str 1048576 = ''1024.00 KB''"
  "size2str 1073741824 = ''1024.00 MB''"
proof -
  have "to_float (sint (1024 :: off_t)) = 1024"
    by (simp add: to_float_small)
  moreover have "size2str_loop 1024 0 = (1024, 0)"
    by (simp add: size2str_loop_stop)
  ultimately show "size2str 1024 = ''1024.00 B''"
    using size2str_float [of 1024 1024 1024 0] by (simp add: fixed2_values units_values)
  have "to_float (sint (1048576 :: off_t)) = 1048576"
    by (simp add: to_float_small)
  moreover have "size2str_loop 1048576 0 = (1024, 1)"
    by (simp add: size2str_loop_step size2str_loop_stop)
  ultimately show "size2str 1048576 = ''1024.00 KB''"
    using size2str_float [of 1048576 1048576 1024 1] by (simp add: fixed2_values units_values)
  have "binary32_of_nat (2 ^ 30) = 2 ^ 30"
    by (rule b32_power2)
  then have "to_float (sint (1073741824 :: off_t)) = 1073741824"
    by (simp add: to_float_nonneg)
  moreover have "size2str_loop 1073741824 0 = (1024, 2)"
    by (simp add: size2str_loop_step size2str_loop_stop)
  ultimately show "size2str 1073741824 = ''1024.00 MB''"
    using size2str_float [of 1073741824 1073741824 1024 2]
    by (simp add: fixed2_values units_values)
qed

lemma reformat_one:
  "size2str b = ''1.00 KB'' \<Longrightarrow> reformat b = ''1024.00 B''"
  "size2str b = ''1.00 MB'' \<Longrightarrow> reformat b = ''1024.00 KB''"
  "size2str b = ''1.00 GB'' \<Longrightarrow> reformat b = ''1024.00 MB''"
  "size2str b = ''1.00 TB'' \<Longrightarrow> reformat b = ''1024.00 GB''"
proof -
  have t: "truncate_rat (1024 ^ k) = 1024 ^ k" for k
    using truncate_rat_of_int [of "1024 ^ k"] by simp
  have r: "read_size ''1.00 KB'' = 1024 ^ 1" "read_size ''1.00 MB'' = 1024 ^ 2"
    "read_size ''1.00 GB'' = 1024 ^ 3" "read_size ''1.00 TB'' = 1024 ^ 4"
    using read_size_one [of 1] read_size_one [of 2] read_size_one [of 3] read_size_one [of 4]
    by (simp_all add: units_def)
  show "size2str b = ''1.00 KB'' \<Longrightarrow> reformat b = ''1024.00 B''"
    unfolding reformat_def by (simp only: r t) (simp add: size2str_powers)
  show "size2str b = ''1.00 MB'' \<Longrightarrow> reformat b = ''1024.00 KB''"
    unfolding reformat_def by (simp only: r t) (simp add: size2str_powers)
  show "size2str b = ''1.00 GB'' \<Longrightarrow> reformat b = ''1024.00 MB''"
    unfolding reformat_def by (simp only: r t) (simp add: size2str_powers)
  show "size2str b = ''1.00 TB'' \<Longrightarrow> reformat b = ''1024.00 GB''"
    unfolding reformat_def by (simp only: r t) (simp add: size2str_examples)
qed

lemma reformat_same:
  assumes rng: "sint b < 2 ^ 63 - 2 ^ 38"
    and ne: "size2str b \<noteq> ''1.00 KB''" "size2str b \<noteq> ''1.00 MB''"
      "size2str b \<noteq> ''1.00 GB''" "size2str b \<noteq> ''1.00 TB''"
  shows "reformat b = size2str b"
proof -
  obtain v k where res: "size2str_loop (to_float (sint b)) 0 = (v, k)"
    by (cases "size2str_loop (to_float (sint b)) 0")
  show ?thesis
  proof (cases k)
    case 0
    with res show ?thesis
      by (intro reformat_unit0) simp
  next
    case (Suc k0)
    then have k1: "1 \<le> k"
      by simp
    note inv = size2str_loop_invariant [OF res le0, unfolded diff_zero]
    from inv have k4: "k \<le> 4"
      by blast
    have str: "size2str b = fixed2 v @ '' '' @ units ! k"
      using res by (rule size2str_float [OF refl])
    have "round_half_even (v * 100) \<noteq> 100"
    proof
      assume h: "round_half_even (v * 100) = 100"
      from round_half_even_bounds(1) [of "v * 100"] have "0 \<le> v"
        unfolding h by simp
      with h have "fixed2 v = ''1.00''"
        by (rule fixed2_one)
      with str units_above_b [OF k1 k4] ne show False
        by auto
    qed
    with res k1 rng show ?thesis
      by (rule reformat_scaled)
  qed
qed

text \<open>
  C7, amended. Let \<open>reformat b\<close> be the text obtained by reading \<^verbatim>\<open>size2str(b)\<close> back as a
  byte count and formatting that count. For every \<open>b\<close> below \<open>2^63 - 2^38\<close> (the byte
  counts whose text, read back, is below \<open>2^63\<close>) whose text is not 1.00 in a unit above B,
  \<open>reformat b\<close> is the text of \<open>b\<close> itself. A text 1.00 in a unit above B denotes exactly
  1024 of the unit below, which the strict comparison of the loop leaves in that unit:
  re-formatting gives 1024.00 in the unit below.
\<close>

theorem C7_reformat:
  "(sint b < 2 ^ 63 - 2 ^ 38
      \<and> size2str b \<noteq> ''1.00 KB'' \<and> size2str b \<noteq> ''1.00 MB''
      \<and> size2str b \<noteq> ''1.00 GB'' \<and> size2str b \<noteq> ''1.00 TB''
      \<longrightarrow> reformat b = size2str b)
   \<and> (size2str b = ''1.00 KB'' \<longrightarrow> reformat b = ''1024.00 B'')
   \<and> (size2str b = ''1.00 MB'' \<longrightarrow> reformat b = ''1024.00 KB'')
   \<and> (size2str b = ''1.00 GB'' \<longrightarrow> reformat b = ''1024.00 MB'')
   \<and> (size2str b = ''1.00 TB'' \<longrightarrow> reformat b = ''1024.00 GB'')"
  using reformat_same [of b] reformat_one [of b] by blast

lemma size2str_1025: "size2str 1025 = ''1.00 KB''"
proof -
  have "to_float (sint (1025 :: off_t)) = 1025"
    by (simp add: to_float_small)
  moreover have "size2str_loop 1025 0 = (1025 / 1024, 1)"
    by (simp add: size2str_loop_step size2str_loop_stop)
  moreover have "round_half_even (1025 / 1024 * 100) = 100"
    by (rule round_half_even_unique) simp_all
  then have "fixed2 (1025 / 1024) = ''1.00''"
    by (rule fixed2_one) simp
  ultimately show ?thesis
    using size2str_float [of 1025 1025 "1025 / 1024" 1] by (simp add: units_values)
qed

theorem C7_reformat_witness:
  "sint (1536 :: off_t) < 2 ^ 63 - 2 ^ 38
   \<and> size2str 1536 = ''1.50 KB'' \<and> reformat 1536 = ''1.50 KB''
   \<and> size2str 1025 = ''1.00 KB'' \<and> reformat 1025 = ''1024.00 B''
   \<and> size2str 1048576 = ''1024.00 KB'' \<and> reformat 1048576 = ''1024.00 KB''"
proof -
  have r: "sint (1536 :: off_t) < 2 ^ 63 - 2 ^ 38" "sint (1048576 :: off_t) < 2 ^ 63 - 2 ^ 38"
    by simp_all
  have s: "size2str 1536 = ''1.50 KB''" "size2str 1025 = ''1.00 KB''"
    "size2str 1048576 = ''1024.00 KB''"
    by (simp_all add: size2str_examples size2str_1025 size2str_powers)
  from C7_reformat [of 1536] r(1) have "reformat 1536 = ''1.50 KB''"
    by (simp add: s)
  moreover from C7_reformat [of 1025] have "reformat 1025 = ''1024.00 B''"
    by (simp add: s)
  moreover from C7_reformat [of 1048576] r(2) have "reformat 1048576 = ''1024.00 KB''"
    by (simp add: s)
  ultimately show ?thesis
    using r s by simp
qed

lemma size2str_max: "size2str 9223372036854775807 = ''8388608.00 TB''"
proof -
  have "bit_length 9223372036854775807 = Suc 62"
    by (rule bit_length_eqI) simp_all
  then have "binary32_of_nat 9223372036854775807 = 9223372036854775808"
    by (simp add: binary32_of_nat_def rne_unfold)
  then have "to_float (sint (9223372036854775807 :: off_t)) = 9223372036854775808"
    by (simp add: to_float_nonneg)
  moreover have "size2str_loop 9223372036854775808 0 = (8388608, 4)"
    by (simp add: size2str_loop_step size2str_loop_stop)
  moreover have "show_nat 8388608 = ''8388608''"
    by (simp add: show_nat_less show_nat_more digit_char_def)
  then have "fixed2 8388608 = ''8388608.00''"
    using fixed2_of_nat [of 8388608] by simp
  ultimately show ?thesis
    using size2str_float [of 9223372036854775807 9223372036854775808 8388608 4]
    by (simp add: units_values)
qed

lemma reformat_max: "reformat 9223372036854775807 = ''-9223372036854775808.00 B''"
proof -
  have "read_fixed (fixed2 8388608) = 8388608"
    using read_fixed_of_int [of 8388608] by simp
  with read_size_printed [of 4 8388608] have "read_size ''8388608.00 TB'' = 9223372036854775808"
    using fixed2_of_nat [of 8388608]
    by (simp add: units_values show_nat_less show_nat_more digit_char_def)
  moreover have "truncate_rat 9223372036854775808 = 9223372036854775808"
    using truncate_rat_of_int [of 9223372036854775808] by simp
  ultimately have r: "reformat 9223372036854775807 = size2str (word_of_int 9223372036854775808)"
    unfolding reformat_def size2str_max by simp
  have "binary32_of_nat (2 ^ 63) = 2 ^ 63"
    by (rule b32_power2)
  then have "to_float (sint (word_of_int 9223372036854775808 :: off_t)) = - 9223372036854775808"
    by (simp add: to_float_neg)
  moreover have "size2str_loop (- 9223372036854775808) 0 = (- 9223372036854775808, 0)"
    by (simp add: size2str_loop_stop)
  moreover have "show_nat 9223372036854775808 = ''9223372036854775808''"
    by (simp add: show_nat_less show_nat_more digit_char_def)
  then have "fixed2 (- 9223372036854775808) = ''-9223372036854775808.00''"
    unfolding fixed2_def Let_def by (simp add: round_half_even_def digit_char_def)
  ultimately show ?thesis
    unfolding r
    using size2str_float [of "word_of_int 9223372036854775808" "- 9223372036854775808"
        "- 9223372036854775808" 0]
    by (simp add: units_values)
qed

text \<open>
  The claim as stated fails at \<open>b = 1025\<close>, printed as \<open>"1.00 KB"\<close>: the text denotes 1024
  bytes, which are printed as \<open>"1024.00 B"\<close>. It also fails at the largest byte count: its
  text denotes \<open>2^63\<close> bytes, a count that \<^verbatim>\<open>off_t\<close> does not hold.
\<close>

theorem C7_reformat_counterexample:
  "size2str 1025 = ''1.00 KB'' \<and> reformat 1025 = ''1024.00 B''
   \<and> reformat 1025 \<noteq> size2str 1025
   \<and> size2str 9223372036854775807 = ''8388608.00 TB''
   \<and> reformat 9223372036854775807 = ''-9223372036854775808.00 B''
   \<and> reformat 9223372036854775807 \<noteq> size2str 9223372036854775807"
  by (simp add: size2str_1025 reformat_one(1) size2str_max reformat_max)

end
